theory Spec2Isabelle
  imports Complex_Main "HOL-Library.Multiset"
begin

section \<open>Data model (multi\_agent\_system.py, part 1)\<close>

text \<open>
  The pydantic models of the source become records. Python \<open>int\<close> is \<^typ>\<open>int\<close>,
  \<open>List[str]\<close> is \<^typ>\<open>string list\<close>. Python \<open>float\<close> fields and the scores computed from
  them are modelled by exact rationals (\<^typ>\<open>rat\<close>). This is the one place where the model
  is not the code: where two combined scores are equal as rationals, or closer than the
  rounding error of the double arithmetic of lines 120 and 560, the code may rank the two
  candidates the other way round (a rational tie at 9/20 is 0.44999999999999996 against
  0.45 in doubles). No theorem below depends on it: the general theorems hold for any
  ranking of the candidates, and the concrete runs compare scores that differ by at least
  0.02 or that are computed by the same operations from the same values.
  Field names follow the source; a prefix is added where two models share a field name
  (\<open>id\<close>, \<open>name\<close>, \<open>description\<close>, \<open>required_skills\<close>).
\<close>

record TeamMember =
  name :: string
  profile :: string
  skills :: "string list"
  total_bandwidth_percent :: int
  max_concurrent_tasks :: int
  hourly_rate :: rat
  location :: string

record Project =
  project_id :: string
  project_name :: string
  project_description :: string
  priority :: int
  budget :: rat
  project_required_skills :: "string list"
  estimated_duration_weeks :: int
  client :: string
  deadline :: "string option"

record Task =
  task_id :: string
  task_name :: string
  description :: string
  required_skills :: "string list"
  estimated_hours :: rat
  phase :: string
  dependencies :: "string list"

record ResourceAllocation =
  project :: Project
  task :: Task
  team_member :: TeamMember
  start_week :: int
  end_week :: int
  allocated_bandwidth :: int
  estimated_cost :: rat

section \<open>Python primitives used by the allocators\<close>

text \<open>\<open>int(x)\<close> on a float truncates towards zero.\<close>

definition py_int :: "rat \<Rightarrow> int" where
  "py_int x = (if 0 \<le> x then \<lfloor>x\<rfloor> else \<lceil>x\<rceil>)"

text \<open>\<open>range(a, b)\<close> over integers.\<close>

definition py_range :: "int \<Rightarrow> int \<Rightarrow> int list" where
  "py_range a b = [a..b - 1]"

text \<open>
  A small dictionary is an association list with distinct keys: \<open>d.get(k, dflt)\<close> and
  \<open>d[k] = v\<close>. The inner dictionaries \<open>bandwidth_tracker[name]\<close> map a week to the
  bandwidth committed in it; as lists, \<open>sum(d.values())\<close> can be computed.
\<close>

type_synonym week_dict = "(int \<times> int) list"

definition dict_get :: "('k \<times> 'v) list \<Rightarrow> 'k \<Rightarrow> 'v \<Rightarrow> 'v" where
  "dict_get d k dflt = (case map_of d k of None \<Rightarrow> dflt | Some v \<Rightarrow> v)"

fun dict_set :: "('k \<times> 'v) list \<Rightarrow> 'k \<Rightarrow> 'v \<Rightarrow> ('k \<times> 'v) list" where
  "dict_set [] k v = [(k, v)]"
| "dict_set ((k', v') # d) k v = (if k' = k then (k, v) # d else (k', v') # dict_set d k v)"

definition dict_values_sum :: "week_dict \<Rightarrow> int" where
  "dict_values_sum d = sum_list (map snd d)"

text \<open>
  \<open>list.sort(reverse=True, key=f)\<close> is a stable sort: elements with equal keys keep their
  original order, also under \<open>reverse=True\<close>. It is the stable insertion sort of the
  library on the negated key.
\<close>

definition sort_reverse :: "('a \<Rightarrow> rat) \<Rightarrow> 'a list \<Rightarrow> 'a list" where
  "sort_reverse f xs = sort_key (\<lambda>x. - f x) xs"

section \<open>Scoring (PortfolioManagerAgent.match\_skills and the score terms)\<close>

text \<open>\<open>len(set(required_skills) & set(member.skills))\<close>\<close>

definition matched :: "string list \<Rightarrow> TeamMember \<Rightarrow> nat" where
  "matched required member = length (remdups (filter (\<lambda>s. s \<in> set (skills member)) required))"

definition match_skills :: "string list \<Rightarrow> TeamMember \<Rightarrow> rat" where
  "match_skills required member =
     (if required = [] then 1 / 2
      else of_nat (matched required member) / of_nat (length required))"

text \<open>The deep-dive scorer inlines the same quotient with the default 0.3 (line 553).\<close>

definition match_score :: "string list \<Rightarrow> TeamMember \<Rightarrow> rat" where
  "match_score required member =
     (if required \<noteq> [] then of_nat (matched required member) / of_nat (length required)
      else 3 / 10)"

definition workload_score_of :: "int \<Rightarrow> rat" where
  "workload_score_of total_workload = 1 / (1 + of_int total_workload / 100)"

definition consecutive_score_of :: "int \<Rightarrow> rat" where
  "consecutive_score_of consecutive_count =
     (if consecutive_count \<ge> 3 then 1 / 2 else 1 - of_int consecutive_count * (15 / 100))"

text \<open>\<open>duration_weeks = max(1, int(task.estimated_hours / hours_per_week))\<close> with 20 hours per week.\<close>

definition duration_weeks :: "Task \<Rightarrow> int" where
  "duration_weeks t = max 1 (py_int (estimated_hours t / 20))"

definition bandwidth_needed :: int where
  "bandwidth_needed = 50"

section \<open>Bandwidth ledger\<close>

text \<open>
  The capacity check of both allocators (lines 137-140 and 579-584): every week of the
  range must have room for the bandwidth needed.
\<close>

definition can_assign :: "week_dict \<Rightarrow> TeamMember \<Rightarrow> int \<Rightarrow> int \<Rightarrow> bool" where
  "can_assign d member start dur =
     list_all (\<lambda>week. dict_get d week 0 + bandwidth_needed \<le> total_bandwidth_percent member)
       (py_range start (start + dur))"

text \<open>The ledger update of both allocators (lines 151-152 and 600-603).\<close>

definition commit_weeks :: "week_dict \<Rightarrow> int \<Rightarrow> int \<Rightarrow> week_dict" where
  "commit_weeks d start dur =
     foldl (\<lambda>d week. dict_set d week (dict_get d week 0 + bandwidth_needed)) d
       (py_range start (start + dur))"

section \<open>Portfolio allocator (PortfolioManagerAgent.allocate\_resources)\<close>

text \<open>
  The local variables of \<open>allocate_resources\<close>. The dictionaries keyed by member name are
  total functions; the source only ever looks up names of the roster, which are all
  initialised, so no \<open>KeyError\<close> can occur. \<open>emitted\<close> is \<open>all_allocations\<close>, each record
  paired with the value of the local \<open>assigned\<close> when it was appended: \<open>True\<close> for the
  append of line 149, \<open>False\<close> for the append of the fallback branch (line 181), whose
  only other trace is the console line ending in "(Overallocated)".
\<close>

record pm_state =
  emitted :: "(ResourceAllocation \<times> bool) list"
  bandwidth_tracker :: "string \<Rightarrow> week_dict"
  member_earliest_week :: "string \<Rightarrow> int"
  consecutive_tasks :: "string \<Rightarrow> int"
  last_assigned_member :: "string option"

definition pm_init :: pm_state where
  "pm_init = \<lparr>emitted = [], bandwidth_tracker = (\<lambda>_. []), member_earliest_week = (\<lambda>_. 0),
     consecutive_tasks = (\<lambda>_. 0), last_assigned_member = None\<rparr>"

record candidate =
  combined_score :: rat
  skill_score :: rat
  workload_score :: rat
  consecutive_score :: rat
  consecutive_count :: int
  member :: TeamMember

definition score_member :: "pm_state \<Rightarrow> Task \<Rightarrow> TeamMember \<Rightarrow> candidate" where
  "score_member st t m =
     (let skill = match_skills (required_skills t) m;
          total_workload = dict_values_sum (bandwidth_tracker st (name m));
          workload = workload_score_of total_workload;
          cnt = consecutive_tasks st (name m);
          consec = consecutive_score_of cnt
      in \<lparr>combined_score = (3 / 10) * skill + (5 / 10) * workload + (2 / 10) * consec,
          skill_score = skill, workload_score = workload, consecutive_score = consec,
          consecutive_count = cnt, member = m\<rparr>)"

definition member_candidates :: "pm_state \<Rightarrow> TeamMember list \<Rightarrow> Task \<Rightarrow> candidate list" where
  "member_candidates st team t = sort_reverse combined_score (map (score_member st t) team)"

text \<open>
  The streak bookkeeping (lines 156-162, repeated at 187-193). \<open>if last_assigned_member:\<close>
  is Python truthiness: it is false for \<open>None\<close> and for the empty string.
\<close>

definition update_consecutive :: "string option \<Rightarrow> string \<Rightarrow> (string \<Rightarrow> int) \<Rightarrow> (string \<Rightarrow> int)" where
  "update_consecutive prev n c =
     (if prev = Some n then c(n := c n + 1)
      else (case prev of
              Some l \<Rightarrow> (if l \<noteq> [] then c(l := 0) else c)
            | None \<Rightarrow> c)(n := 1))"

text \<open>
  The block that both branches execute with the chosen member: build the allocation,
  append it, book the weeks, move the member's cursor, update the streak counters.
\<close>

definition pm_place :: "Project \<Rightarrow> Task \<Rightarrow> TeamMember \<Rightarrow> bool \<Rightarrow> pm_state \<Rightarrow> pm_state" where
  "pm_place p t m assigned st =
     (let start = member_earliest_week st (name m);
          dur = duration_weeks t;
          allocation = \<lparr>project = p, task = t, team_member = m,
                        start_week = start, end_week = start + dur,
                        allocated_bandwidth = bandwidth_needed,
                        estimated_cost = estimated_hours t * hourly_rate m\<rparr>
      in st\<lparr>emitted := emitted st @ [(allocation, assigned)],
            bandwidth_tracker := (bandwidth_tracker st)
               (name m := commit_weeks (bandwidth_tracker st (name m)) start dur),
            member_earliest_week := (member_earliest_week st)(name m := start + dur),
            consecutive_tasks := update_consecutive (last_assigned_member st) (name m) (consecutive_tasks st),
            last_assigned_member := Some (name m)\<rparr>)"

definition pm_fits :: "pm_state \<Rightarrow> Task \<Rightarrow> candidate \<Rightarrow> bool" where
  "pm_fits st t c =
     can_assign (bandwidth_tracker st (name (member c))) (member c)
       (member_earliest_week st (name (member c))) (duration_weeks t)"

text \<open>
  One iteration of \<open>for task in tasks\<close>: the first ranked candidate that fits is taken
  (the loop with \<open>break\<close>); if none fits and the candidate list is not empty, the
  top-ranked candidate is taken anyway; with an empty roster the task is skipped.
\<close>

definition pm_assign_task :: "TeamMember list \<Rightarrow> Project \<Rightarrow> pm_state \<Rightarrow> Task \<Rightarrow> pm_state" where
  "pm_assign_task team p st t =
     (let cands = member_candidates st team t in
      case find (pm_fits st t) cands of
        Some c \<Rightarrow> pm_place p t (member c) True st
      | None \<Rightarrow> (case cands of [] \<Rightarrow> st | c # _ \<Rightarrow> pm_place p t (member c) False st))"

definition phase_order :: "string list" where
  "phase_order = [''Planning'', ''Design'', ''Development'', ''Testing'', ''Deployment'']"

text \<open>
  \<open>_create_portfolio_tasks\<close>. \<open>Task(...)\<close> is called without an id, so the id comes from
  \<open>uuid.uuid4()\<close>: \<open>uuid\<close> is the sequence of identifiers drawn in this run and \<open>k\<close> the
  number drawn so far.
\<close>

definition create_portfolio_tasks :: "(nat \<Rightarrow> string) \<Rightarrow> nat \<Rightarrow> Project \<Rightarrow> Task list" where
  "create_portfolio_tasks uuid k p =
     map (\<lambda>(i, ph). \<lparr>task_id = uuid i,
                     task_name = ph @ '' - '' @ project_name p,
                     description = ph @ '' phase for '' @ project_name p,
                     required_skills = take 2 (project_required_skills p),
                     estimated_hours = of_int (estimated_duration_weeks p * 8),
                     phase = ph, dependencies = []\<rparr>)
       (enumerate k phase_order)"

fun pm_projects :: "(nat \<Rightarrow> string) \<Rightarrow> TeamMember list \<Rightarrow> nat \<Rightarrow> Project list \<Rightarrow> pm_state \<Rightarrow> pm_state" where
  "pm_projects uuid team k [] st = st"
| "pm_projects uuid team k (p # ps) st =
     pm_projects uuid team (k + 5) ps
       (foldl (pm_assign_task team p) st (create_portfolio_tasks uuid k p))"

text \<open>
  The constructor sorts the projects by priority (\<open>sorted\<close> is stable);
  \<open>allocate_resources\<close> then runs the loops from the initial state.
\<close>

definition allocate_resources_run :: "(nat \<Rightarrow> string) \<Rightarrow> TeamMember list \<Rightarrow> Project list \<Rightarrow> pm_state" where
  "allocate_resources_run uuid team projects =
     pm_projects uuid team 0 (sort_key priority projects) pm_init"

definition allocate_resources :: "(nat \<Rightarrow> string) \<Rightarrow> TeamMember list \<Rightarrow> Project list \<Rightarrow> ResourceAllocation list" where
  "allocate_resources uuid team projects = map fst (emitted (allocate_resources_run uuid team projects))"

section \<open>Deep-dive allocator (DeepDiveAgent.allocate\_tasks)\<close>

text \<open>
  The local variables of \<open>allocate_tasks\<close>. \<open>dd_emitted\<close> is \<open>allocations\<close>, each record
  paired with the local \<open>assigned\<close> at its append (line 597 or the fallback append of
  line 633). \<open>phase_max_end_week\<close> is the variable of the current phase.
\<close>

record dd_state =
  dd_emitted :: "(ResourceAllocation \<times> bool) list"
  dd_bandwidth_tracker :: "string \<Rightarrow> week_dict"
  dd_member_earliest_week :: "string \<Rightarrow> int"
  phase_end_weeks :: "(string \<times> int) list"
  phase_max_end_week :: int

definition dd_init :: dd_state where
  "dd_init = \<lparr>dd_emitted = [], dd_bandwidth_tracker = (\<lambda>_. []),
     dd_member_earliest_week = (\<lambda>_. 0), phase_end_weeks = [], phase_max_end_week = 0\<rparr>"

text \<open>
  \<open>tasks_by_phase[phase]\<close>: the loop of lines 518-520 appends every task whose phase is a
  key of the dictionary to the list of its phase; a task with any other phase label is
  appended nowhere.
\<close>

definition tasks_by_phase :: "Task list \<Rightarrow> string \<Rightarrow> Task list" where
  "tasks_by_phase tasks ph = filter (\<lambda>t. phase t = ph) tasks"

text \<open>The candidate tuples \<open>(combined_score, match_score, workload_score, member)\<close>.\<close>

definition dd_score_member :: "dd_state \<Rightarrow> Task \<Rightarrow> TeamMember \<Rightarrow> rat \<times> rat \<times> rat \<times> TeamMember" where
  "dd_score_member st t m =
     (let ms = match_score (required_skills t) m;
          total_workload = dict_values_sum (dd_bandwidth_tracker st (name m));
          workload = workload_score_of total_workload
      in ((6 / 10) * ms + (4 / 10) * workload, ms, workload, m))"

definition dd_member_candidates :: "dd_state \<Rightarrow> TeamMember list \<Rightarrow> Task \<Rightarrow> (rat \<times> rat \<times> rat \<times> TeamMember) list" where
  "dd_member_candidates st team t = sort_reverse fst (map (dd_score_member st t) team)"

definition dd_start_week :: "dd_state \<Rightarrow> int \<Rightarrow> TeamMember \<Rightarrow> int" where
  "dd_start_week st phase_start_week m = max phase_start_week (dd_member_earliest_week st (name m))"

definition dd_place :: "Project \<Rightarrow> int \<Rightarrow> Task \<Rightarrow> TeamMember \<Rightarrow> bool \<Rightarrow> dd_state \<Rightarrow> dd_state" where
  "dd_place p phase_start_week t m assigned st =
     (let start = dd_start_week st phase_start_week m;
          dur = duration_weeks t;
          allocation = \<lparr>project = p, task = t, team_member = m,
                        start_week = start, end_week = start + dur,
                        allocated_bandwidth = bandwidth_needed,
                        estimated_cost = estimated_hours t * hourly_rate m\<rparr>
      in st\<lparr>dd_emitted := dd_emitted st @ [(allocation, assigned)],
            dd_bandwidth_tracker := (dd_bandwidth_tracker st)
               (name m := commit_weeks (dd_bandwidth_tracker st (name m)) start dur),
            dd_member_earliest_week := (dd_member_earliest_week st)(name m := start + dur),
            phase_max_end_week := max (phase_max_end_week st) (start + dur)\<rparr>)"

definition dd_fits :: "dd_state \<Rightarrow> int \<Rightarrow> Task \<Rightarrow> rat \<times> rat \<times> rat \<times> TeamMember \<Rightarrow> bool" where
  "dd_fits st phase_start_week t c =
     (case c of (combined, ms, workload, m) \<Rightarrow>
        can_assign (dd_bandwidth_tracker st (name m)) m
          (dd_start_week st phase_start_week m) (duration_weeks t))"

definition dd_assign_task :: "TeamMember list \<Rightarrow> Project \<Rightarrow> int \<Rightarrow> dd_state \<Rightarrow> Task \<Rightarrow> dd_state" where
  "dd_assign_task team p phase_start_week st t =
     (let cands = dd_member_candidates st team t in
      case find (dd_fits st phase_start_week t) cands of
        Some (combined, ms, workload, m) \<Rightarrow> dd_place p phase_start_week t m True st
      | None \<Rightarrow> (case cands of
                  [] \<Rightarrow> st
                | (combined, ms, workload, m) # _ \<Rightarrow> dd_place p phase_start_week t m False st))"

text \<open>Lines 542-544: every member's cursor is raised to the phase start, never lowered.\<close>

definition raise_earliest :: "TeamMember list \<Rightarrow> int \<Rightarrow> (string \<Rightarrow> int) \<Rightarrow> (string \<Rightarrow> int)" where
  "raise_earliest team phase_start_week e =
     foldl (\<lambda>e m. if e (name m) < phase_start_week then e(name m := phase_start_week) else e) e team"

text \<open>
  One iteration of \<open>for phase_idx, phase in enumerate(phase_order)\<close>: a phase without tasks
  is skipped (\<open>continue\<close>) and gets no entry in \<open>phase_end_weeks\<close>.
\<close>

definition dd_phase :: "TeamMember list \<Rightarrow> Project \<Rightarrow> Task list \<Rightarrow> dd_state \<Rightarrow> nat \<times> string \<Rightarrow> dd_state" where
  "dd_phase team p tasks st ip =
     (case ip of (phase_idx, ph) \<Rightarrow>
       (let phase_tasks = tasks_by_phase tasks ph in
        if phase_tasks = [] then st
        else
          (let phase_start_week =
                 (if phase_idx = 0 then 0
                  else dict_get (phase_end_weeks st) (phase_order ! (phase_idx - 1)) 0);
               st1 = st\<lparr>dd_member_earliest_week :=
                         raise_earliest team phase_start_week (dd_member_earliest_week st),
                       phase_max_end_week := phase_start_week\<rparr>;
               st2 = foldl (dd_assign_task team p phase_start_week) st1 phase_tasks
           in st2\<lparr>phase_end_weeks := dict_set (phase_end_weeks st2) ph (phase_max_end_week st2)\<rparr>)))"

definition allocate_tasks_run :: "TeamMember list \<Rightarrow> Project \<Rightarrow> Task list \<Rightarrow> dd_state" where
  "allocate_tasks_run team p tasks = foldl (dd_phase team p tasks) dd_init (enumerate 0 phase_order)"

definition allocate_tasks :: "TeamMember list \<Rightarrow> Project \<Rightarrow> Task list \<Rightarrow> ResourceAllocation list" where
  "allocate_tasks team p tasks = map fst (dd_emitted (allocate_tasks_run team p tasks))"

section \<open>Predicates used to state and prove the properties\<close>

text \<open>
  Two allocations of the same member name do not overlap when the earlier one ends before
  the later one starts.
\<close>

definition no_overlap :: "ResourceAllocation \<Rightarrow> ResourceAllocation \<Rightarrow> bool" where
  "no_overlap a a' \<longleftrightarrow> (name (team_member a) = name (team_member a') \<longrightarrow> end_week a \<le> start_week a')"

text \<open>
  What both branches of both allocators put into an emitted record, and what the value of
  \<open>assigned\<close> at the append says about the member's capacity.
\<close>

definition alloc_wf :: "ResourceAllocation \<times> bool \<Rightarrow> bool" where
  "alloc_wf ab = (case ab of (a, assigned) \<Rightarrow>
      0 \<le> start_week a \<and> end_week a = start_week a + duration_weeks (task a) \<and>
      allocated_bandwidth a = bandwidth_needed \<and>
      estimated_cost a = estimated_hours (task a) * hourly_rate (team_member a) \<and>
      (assigned \<longleftrightarrow> bandwidth_needed \<le> total_bandwidth_percent (team_member a)))"

text \<open>
  The invariant of the three tracking structures: cursors are not negative, the ledger of a
  name is empty from its cursor on, every emitted allocation ends at or before the cursor
  of its member's name, and allocations of one name never overlap.
\<close>

definition ledger_inv :: "(ResourceAllocation \<times> bool) list \<Rightarrow> (string \<Rightarrow> week_dict) \<Rightarrow> (string \<Rightarrow> int) \<Rightarrow> bool" where
  "ledger_inv es tr ea \<longleftrightarrow>
     (\<forall>n. 0 \<le> ea n) \<and>
     (\<forall>n w. ea n \<le> w \<longrightarrow> dict_get (tr n) w 0 = 0) \<and>
     (\<forall>ab\<in>set es. alloc_wf ab \<and> end_week (fst ab) \<le> ea (name (team_member (fst ab)))) \<and>
     sorted_wrt no_overlap (map fst es)"

text \<open>An allocation of person \<open>m\<close> whose half-open week interval contains week \<open>w\<close>.\<close>

definition covers :: "TeamMember \<Rightarrow> int \<Rightarrow> ResourceAllocation \<Rightarrow> bool" where
  "covers m w a \<longleftrightarrow> team_member a = m \<and> start_week a \<le> w \<and> w < end_week a"

definition pm_linv :: "pm_state \<Rightarrow> bool" where
  "pm_linv st \<longleftrightarrow> ledger_inv (emitted st) (bandwidth_tracker st) (member_earliest_week st)"

text \<open>
  The input task list of a portfolio run: the five synthetic tasks of each project, in
  the order of the project loop.
\<close>

fun portfolio_tasks :: "(nat \<Rightarrow> string) \<Rightarrow> nat \<Rightarrow> Project list \<Rightarrow> Task list" where
  "portfolio_tasks uuid k [] = []"
| "portfolio_tasks uuid k (p # ps) = create_portfolio_tasks uuid k p @ portfolio_tasks uuid (k + 5) ps"

definition dd_linv :: "dd_state \<Rightarrow> bool" where
  "dd_linv st \<longleftrightarrow> ledger_inv (dd_emitted st) (dd_bandwidth_tracker st) (dd_member_earliest_week st)"

text \<open>Every allocation of a phase ends before any allocation of the next phase starts.\<close>

definition phase_gap :: "ResourceAllocation list \<Rightarrow> bool" where
  "phase_gap as \<longleftrightarrow>
     (\<forall>a\<in>set as. \<forall>b\<in>set as. \<forall>k. Suc k < length phase_order \<and>
         phase (task a) = phase_order ! k \<and> phase (task b) = phase_order ! Suc k
         \<longrightarrow> end_week a \<le> start_week b)"

text \<open>
  The invariant of the phase loop before iteration \<open>i\<close>: only tasks of earlier phases are
  allocated, \<open>phase_end_weeks\<close> bounds the end weeks of each of them, and the allocated
  tasks are the tasks of the earlier phases in order.
\<close>

definition dd_oinv :: "TeamMember list \<Rightarrow> Task list \<Rightarrow> nat \<Rightarrow> dd_state \<Rightarrow> bool" where
  "dd_oinv team tasks i st \<longleftrightarrow>
     dd_linv st \<and>
     (\<forall>ab\<in>set (dd_emitted st).
         (\<exists>j<i. phase (task (fst ab)) = phase_order ! j) \<and>
         end_week (fst ab) \<le> dict_get (phase_end_weeks st) (phase (task (fst ab))) 0) \<and>
     phase_gap (map fst (dd_emitted st)) \<and>
     map (\<lambda>ab. task (fst ab)) (dd_emitted st) =
       (if team = [] then [] else concat (map (tasks_by_phase tasks) (take i phase_order)))"

text \<open>The effect of one placement inside a phase that starts at week \<open>ps\<close>.\<close>

definition dd_step_ok :: "int \<Rightarrow> Task \<Rightarrow> dd_state \<Rightarrow> dd_state \<Rightarrow> bool" where
  "dd_step_ok ps t st st' \<longleftrightarrow>
     phase_end_weeks st' = phase_end_weeks st \<and>
     phase_max_end_week st \<le> phase_max_end_week st' \<and>
     (\<exists>a b. dd_emitted st' = dd_emitted st @ [(a, b)] \<and> task a = t \<and>
        ps \<le> start_week a \<and> end_week a \<le> phase_max_end_week st')"

text \<open>
  The bandwidth committed for a person in a week, summed over the emitted allocations, and
  whether one of the allocations covering that week came from the fallback branch. The
  latter reads the value of \<open>assigned\<close> recorded beside each record; it is not a field of
  the allocation and cannot be read off the list that the run returns.
\<close>

definition committed :: "TeamMember \<Rightarrow> int \<Rightarrow> (ResourceAllocation \<times> bool) list \<Rightarrow> int" where
  "committed m w es = sum_list (map allocated_bandwidth (filter (covers m w) (map fst es)))"

definition flagged :: "TeamMember \<Rightarrow> int \<Rightarrow> (ResourceAllocation \<times> bool) list \<Rightarrow> bool" where
  "flagged m w es \<longleftrightarrow> (\<exists>(a, assigned)\<in>set es. covers m w a \<and> \<not> assigned)"

text \<open>
  The streak counters as they are meant to be: all 0 before the first assignment, then at
  least 1 for the most recently assigned name and 0 for every other name.
\<close>

definition streak_inv :: "pm_state \<Rightarrow> bool" where
  "streak_inv st \<longleftrightarrow>
     (case last_assigned_member st of
        None \<Rightarrow> (\<forall>n. consecutive_tasks st n = 0)
      | Some l \<Rightarrow> l \<noteq> [] \<and> 1 \<le> consecutive_tasks st l \<and> (\<forall>n. n \<noteq> l \<longrightarrow> consecutive_tasks st n = 0))"

text \<open>Erasing the random task ids from a task, an allocation and the emitted list.\<close>

definition forget_id :: "Task \<Rightarrow> Task" where
  "forget_id t = t\<lparr>task_id := []\<rparr>"

definition forget_task_id :: "ResourceAllocation \<Rightarrow> ResourceAllocation" where
  "forget_task_id a = a\<lparr>task := forget_id (task a)\<rparr>"

definition forget_ids :: "pm_state \<Rightarrow> pm_state" where
  "forget_ids st = st\<lparr>emitted := map (\<lambda>(a, b). (forget_task_id a, b)) (emitted st)\<rparr>"

section \<open>Example inputs\<close>

text \<open>
  The roster and the project of the end-to-end scenario: A knows python and has capacity
  100, B knows java and has capacity 50; the project has priority 1, requires python and
  lasts 5 weeks, so that each of its five phase tasks has 40 hours, that is 2 weeks.
\<close>

definition scenario_A :: TeamMember where
  "scenario_A = \<lparr>name = ''A'', profile = ''Developer'', skills = [''python''],
     total_bandwidth_percent = 100, max_concurrent_tasks = 2, hourly_rate = 50,
     location = ''Remote''\<rparr>"

definition scenario_B :: TeamMember where
  "scenario_B = \<lparr>name = ''B'', profile = ''Developer'', skills = [''java''],
     total_bandwidth_percent = 50, max_concurrent_tasks = 2, hourly_rate = 50,
     location = ''Remote''\<rparr>"

definition scenario_P :: Project where
  "scenario_P = \<lparr>project_id = ''p1'', project_name = ''P'', project_description = ''scenario'',
     priority = 1, budget = 100000, project_required_skills = [''python''],
     estimated_duration_weeks = 5, client = ''Internal'', deadline = None\<rparr>"

text \<open>Two draws of task ids.\<close>

definition scenario_uuid :: "nat \<Rightarrow> string" where
  "scenario_uuid n = ''id''"

definition other_uuid :: "nat \<Rightarrow> string" where
  "other_uuid n = ''id2''"

text \<open>
  C has capacity 40, below the 50 every task needs; the second project has a duration of 0
  weeks, so its tasks have 0 hours; three deep-dive tasks, the last with a phase label
  outside the five phases; the allocations that the examples below produce; a member whose
  name is the empty string.
\<close>

definition scenario_C :: TeamMember where
  "scenario_C = \<lparr>name = ''C'', profile = ''Developer'', skills = [''java''],
     total_bandwidth_percent = 40, max_concurrent_tasks = 2, hourly_rate = 50,
     location = ''Remote''\<rparr>"

definition zero_project :: Project where
  "zero_project = \<lparr>project_id = ''p0'', project_name = ''Z'', project_description = ''no effort'',
     priority = 1, budget = 0, project_required_skills = [],
     estimated_duration_weeks = 0, client = ''Internal'', deadline = None\<rparr>"

definition planning_task :: Task where
  "planning_task = \<lparr>task_id = ''t1'', task_name = ''Requirements Gathering'',
     description = ''Collect and document requirements'', required_skills = [''python''],
     estimated_hours = 40, phase = ''Planning'', dependencies = []\<rparr>"

definition design_task :: Task where
  "design_task = \<lparr>task_id = ''t2'', task_name = ''System Architecture'',
     description = ''Design system architecture'', required_skills = [''python''],
     estimated_hours = 60, phase = ''Design'', dependencies = []\<rparr>"

definition other_task :: Task where
  "other_task = \<lparr>task_id = ''t3'', task_name = ''Retrospective'',
     description = ''Look back'', required_skills = [''python''],
     estimated_hours = 20, phase = ''Review'', dependencies = []\<rparr>"

definition fallback_record :: ResourceAllocation where
  "fallback_record = \<lparr>project = scenario_P,
      task = hd (create_portfolio_tasks scenario_uuid 0 scenario_P),
      team_member = scenario_C, start_week = 0, end_week = 2, allocated_bandwidth = 50,
      estimated_cost = 2000\<rparr>"

definition phase_example_a :: ResourceAllocation where
  "phase_example_a = \<lparr>project = scenario_P, task = planning_task, team_member = scenario_A,
      start_week = 0, end_week = 2, allocated_bandwidth = 50, estimated_cost = 2000\<rparr>"

definition phase_example_b :: ResourceAllocation where
  "phase_example_b = \<lparr>project = scenario_P, task = design_task, team_member = scenario_A,
      start_week = 2, end_week = 5, allocated_bandwidth = 50, estimated_cost = 3000\<rparr>"

definition zero_hours_example :: ResourceAllocation where
  "zero_hours_example = \<lparr>project = zero_project,
      task = hd (create_portfolio_tasks scenario_uuid 0 zero_project), team_member = scenario_A,
      start_week = 0, end_week = 1, allocated_bandwidth = 50, estimated_cost = 0\<rparr>"

definition unnamed_member :: TeamMember where
  "unnamed_member = \<lparr>name = '''', profile = ''Developer'', skills = [''python''],
     total_bandwidth_percent = 100, max_concurrent_tasks = 2, hourly_rate = 50,
     location = ''Remote''\<rparr>"

section \<open>Skill score\<close>

lemma matched_le_length: "matched required m \<le> length required"
  unfolding matched_def
  by (meson le_trans length_filter_le length_remdups_leq)

lemma matched_eq_length_iff:
  "matched required m = length required \<longleftrightarrow> distinct required \<and> set required \<subseteq> set (skills m)"
proof -
  let ?f = "filter (\<lambda>s. s \<in> set (skills m)) required"
  have a: "length (remdups ?f) \<le> length ?f" by (rule length_remdups_leq)
  have b: "length ?f \<le> length required" by (rule length_filter_le)
  show ?thesis
  proof
    assume eq: "matched required m = length required"
    then have e1: "length (remdups ?f) = length ?f" and e2: "length ?f = length required"
      using a b unfolding matched_def by linarith+
    from e2 have all: "\<forall>s\<in>set required. s \<in> set (skills m)"
      using length_filter_less[of _ required "\<lambda>s. s \<in> set (skills m)"] by fastforce
    then have "?f = required" by simp
    with e1 have "distinct required" by (simp add: length_remdups_eq)
    with all show "distinct required \<and> set required \<subseteq> set (skills m)" by auto
  next
    assume h: "distinct required \<and> set required \<subseteq> set (skills m)"
    then have "?f = required" by (auto simp: filter_id_conv)
    with h show "matched required m = length required"
      unfolding matched_def by simp
  qed
qed

lemma matched_card: "matched required m = card (set required \<inter> set (skills m))"
  by (simp add: matched_def length_remdups_card_conv Int_def conj_commute)

lemma quot_bounds: "required \<noteq> [] \<Longrightarrow>
   0 \<le> (of_nat (matched required m) / of_nat (length required) :: rat) \<and> (of_nat (matched required m) / of_nat (length required) :: rat) \<le> 1"
  using matched_le_length[of required m] by (simp add: divide_le_eq_1)

lemma quot_one: "required \<noteq> [] \<Longrightarrow>
   (of_nat (matched required m) / of_nat (length required) :: rat) = 1 \<longleftrightarrow> matched required m = length required"
  by auto

text \<open>
  What the two scorers do on every input: the score lies in [0,1], the empty list gets the
  default (0.5 in the portfolio scorer, 0.3 in the deep-dive scorer), and a non-empty list
  scores 1 exactly when it has no repeated entry and all its skills are among the
  member's. The quotient is the number of distinct matched skills over the number of list
  entries.
\<close>

lemma skill_score_characterisation:
  "0 \<le> match_skills required m \<and> match_skills required m \<le> 1 \<and>
   0 \<le> match_score required m \<and> match_score required m \<le> 1 \<and>
   (required \<noteq> [] \<longrightarrow>
      (match_skills required m = 1 \<longleftrightarrow> distinct required \<and> set required \<subseteq> set (skills m)) \<and>
      (match_score required m = 1 \<longleftrightarrow> distinct required \<and> set required \<subseteq> set (skills m))) \<and>
   match_skills [] m = 1 / 2 \<and> match_score [] m = 3 / 10"
  using quot_bounds[of required m] quot_one[of required m] matched_eq_length_iff[of required m]
  by (auto simp: match_skills_def match_score_def)

text \<open>
  C7 fails on the code when a required skill is listed twice, which the caller's
  \<open>split(',')\<close> without de-duplication allows: the numerator \<open>len(set(...) & set(...))\<close> counts
  distinct matched skills, the denominator \<open>len(required_skills)\<close> counts list entries. With
  python required twice and a member who knows python, the required skills are a subset of
  the member's skills and the list is not empty, yet both scorers return 0.5 instead of 1.
\<close>

theorem skill_score_duplicate_entries:
  "set [''python'', ''python''] \<subseteq> set (skills scenario_A) \<and>
   [''python'', ''python''] \<noteq> [] \<and>
   match_skills [''python'', ''python''] scenario_A = 1 / 2 \<and>
   match_skills [''python'', ''python''] scenario_A \<noteq> 1 \<and>
   match_score [''python'', ''python''] scenario_A = 1 / 2 \<and>
   match_score [''python'', ''python''] scenario_A \<noteq> 1"
  by (simp add: match_skills_def match_score_def matched_def scenario_A_def)

section \<open>Consecutive-penalty score\<close>

text \<open>
  C6. The consecutive score stored in a candidate is a function of the member's streak
  counter c alone: 1 - 0.15 c for c in {0, 1, 2}, and exactly 0.5 for every c of 3 or more,
  for instance at c = 10.
\<close>

theorem consecutive_floor:
  "consecutive_score (score_member st t m) = consecutive_score_of (consecutive_tasks st (name m)) \<and>
   (\<forall>c\<in>{0, 1, 2}. consecutive_score_of c = 1 - (15 / 100) * of_int c) \<and>
   (\<forall>c\<ge>3. consecutive_score_of c = 1 / 2) \<and> consecutive_score_of 10 = 1 / 2"
  by (simp add: score_member_def consecutive_score_of_def Let_def)

theorem consecutive_floor_witness:
  "(2::int) \<in> {0, 1, 2} \<and> consecutive_score_of 2 = 7 / 10 \<and>
   (3::int) \<le> 4 \<and> consecutive_score_of 4 = 1 / 2"
proof -
  have f: "(\<forall>c\<in>{0, 1, 2}. consecutive_score_of c = 1 - (15 / 100) * of_int c) \<and>
           (\<forall>c\<ge>3. consecutive_score_of c = 1 / 2)"
    using consecutive_floor[of pm_init undefined scenario_A] by blast
  from f have "consecutive_score_of 2 = 1 - (15 / 100) * of_int 2" by blast
  moreover from f have "consecutive_score_of 4 = 1 / 2" by simp
  ultimately show ?thesis by simp
qed

section \<open>The bandwidth ledger and the per-member cursor\<close>

lemma dict_get_dict_set:
  "dict_get (dict_set d k v) k' dflt = (if k' = k then v else dict_get d k' dflt)"
  by (induction d) (auto simp: dict_get_def)

lemma dict_get_foldl_add:
  "distinct ws \<Longrightarrow>
   dict_get (foldl (\<lambda>d week. dict_set d week (dict_get d week 0 + c)) d ws) w 0 =
     (if w \<in> set ws then dict_get d w 0 + c else dict_get d w (0::int))"
  by (induction ws arbitrary: d) (auto simp: dict_get_dict_set)

lemma set_py_range: "set (py_range a b) = {a..<b}"
  by (auto simp: py_range_def)

lemma distinct_py_range: "distinct (py_range a b)"
  by (simp add: py_range_def)

lemma dict_get_commit_weeks:
  "dict_get (commit_weeks d s dur) w 0 =
     (if s \<le> w \<and> w < s + dur then dict_get d w 0 + bandwidth_needed else dict_get d w 0)"
  unfolding commit_weeks_def
  by (simp add: dict_get_foldl_add distinct_py_range set_py_range)

lemma duration_weeks_ge1: "1 \<le> duration_weeks t"
  by (simp add: duration_weeks_def)

lemma can_assign_free:
  assumes "\<forall>w\<ge>s. dict_get d w 0 = 0" and "1 \<le> dur"
  shows "can_assign d m s dur \<longleftrightarrow> bandwidth_needed \<le> total_bandwidth_percent m"
proof -
  have "s \<in> {s..<s + dur}" using assms(2) by simp
  with assms(1) show ?thesis
    unfolding can_assign_def list_all_iff set_py_range by auto
qed

lemma ledger_inv_init: "ledger_inv [] (\<lambda>_. []) (\<lambda>_. 0)"
  by (simp add: ledger_inv_def dict_get_def)

lemma ledger_inv_raise:
  assumes "ledger_inv es tr ea" and "\<forall>n. ea n \<le> ea' n"
  shows "ledger_inv es tr ea'"
  using assms unfolding ledger_inv_def
  by (meson order_trans)

lemma ledger_inv_place:
  assumes inv: "ledger_inv es tr ea"
    and st: "ea (name m) \<le> s"
    and b: "assigned \<longleftrightarrow> bandwidth_needed \<le> total_bandwidth_percent m"
  shows "ledger_inv
     (es @ [(\<lparr>project = p, task = t, team_member = m, start_week = s,
              end_week = s + duration_weeks t, allocated_bandwidth = bandwidth_needed,
              estimated_cost = estimated_hours t * hourly_rate m\<rparr>, assigned)])
     (tr(name m := commit_weeks (tr (name m)) s (duration_weeks t)))
     (ea(name m := s + duration_weeks t))"
proof -
  let ?a = "\<lparr>project = p, task = t, team_member = m, start_week = s,
              end_week = s + duration_weeks t, allocated_bandwidth = bandwidth_needed,
              estimated_cost = estimated_hours t * hourly_rate m\<rparr>"
  have d1: "1 \<le> duration_weeks t" by (rule duration_weeks_ge1)
  from inv have nonneg: "\<forall>n. 0 \<le> ea n"
    and free: "\<forall>n w. ea n \<le> w \<longrightarrow> dict_get (tr n) w 0 = 0"
    and old: "\<forall>ab\<in>set es. alloc_wf ab \<and> end_week (fst ab) \<le> ea (name (team_member (fst ab)))"
    and srt: "sorted_wrt no_overlap (map fst es)"
    unfolding ledger_inv_def by blast+
  have s0: "0 \<le> s" using nonneg st by (meson order_trans)
  have c1: "\<forall>n. 0 \<le> (ea(name m := s + duration_weeks t)) n"
    using nonneg s0 d1 by simp
  have c2: "\<forall>n w. (ea(name m := s + duration_weeks t)) n \<le> w \<longrightarrow>
       dict_get ((tr(name m := commit_weeks (tr (name m)) s (duration_weeks t))) n) w 0 = 0"
    using free st d1 by (auto simp: dict_get_commit_weeks)
  have wf: "alloc_wf (?a, assigned)"
    using s0 b by (simp add: alloc_wf_def)
  have c3: "\<forall>ab\<in>set (es @ [(?a, assigned)]). alloc_wf ab \<and>
       end_week (fst ab) \<le> (ea(name m := s + duration_weeks t)) (name (team_member (fst ab)))"
  proof
    fix ab assume "ab \<in> set (es @ [(?a, assigned)])"
    then consider "ab \<in> set es" | "ab = (?a, assigned)" by auto
    then show "alloc_wf ab \<and>
       end_week (fst ab) \<le> (ea(name m := s + duration_weeks t)) (name (team_member (fst ab)))"
    proof cases
      case 1
      with old have "alloc_wf ab" and "end_week (fst ab) \<le> ea (name (team_member (fst ab)))" by auto
      then show ?thesis using st d1 by auto
    next
      case 2
      then show ?thesis using wf by simp
    qed
  qed
  have c4: "sorted_wrt no_overlap (map fst (es @ [(?a, assigned)]))"
    using srt old st by (auto simp: sorted_wrt_append no_overlap_def)
  show ?thesis unfolding ledger_inv_def using c1 c2 c3 c4 by blast
qed

lemma filter_covers_short:
  "sorted_wrt no_overlap xs \<Longrightarrow> length (filter (covers m w) xs) \<le> 1"
proof (induction xs)
  case Nil
  then show ?case by simp
next
  case (Cons a xs)
  show ?case
  proof (cases "covers m w a")
    case True
    have "filter (covers m w) xs = []"
    proof (rule ccontr)
      assume "filter (covers m w) xs \<noteq> []"
      then obtain a' where "a' \<in> set xs" and "covers m w a'"
        by (metis filter_False)
      with Cons.prems True show False
        by (auto simp: no_overlap_def covers_def)
    qed
    with True show ?thesis by simp
  next
    case False
    with Cons show ?thesis by simp
  qed
qed

lemma covering_sum:
  assumes srt: "sorted_wrt no_overlap (map fst es)"
    and wf: "\<forall>ab\<in>set es. alloc_wf ab"
    and cap: "0 \<le> total_bandwidth_percent m"
    and ok: "\<forall>(a, assigned)\<in>set es. covers m w a \<longrightarrow> assigned"
  shows "sum_list (map allocated_bandwidth (filter (covers m w) (map fst es))) \<le> total_bandwidth_percent m"
proof -
  let ?L = "filter (covers m w) (map fst es)"
  have len: "length ?L \<le> 1" using srt by (rule filter_covers_short)
  show ?thesis
  proof (cases ?L)
    case Nil
    then show ?thesis using cap by simp
  next
    case (Cons a as)
    with len have L: "?L = [a]" by simp
    then have "a \<in> set ?L" by simp
    then have cov: "covers m w a" and "a \<in> fst ` set es" by auto
    then obtain b where ab: "(a, b) \<in> set es" by auto
    with ok cov have b by auto
    moreover from wf ab have "alloc_wf (a, b)" by blast
    ultimately have "allocated_bandwidth a \<le> total_bandwidth_percent (team_member a)"
      by (simp add: alloc_wf_def)
    with cov L show ?thesis by (simp add: covers_def)
  qed
qed

section \<open>Portfolio run: one task assignment and the loops\<close>

lemma member_score_member: "member (score_member st t m) = m"
  by (simp add: score_member_def Let_def)

lemma members_of_candidates: "member ` set (member_candidates st team t) = set team"
  by (auto simp: member_candidates_def sort_reverse_def member_score_member image_iff)

lemma member_candidates_Nil: "member_candidates st team t = [] \<longleftrightarrow> team = []"
  by (metis length_0_conv length_map length_sort member_candidates_def sort_reverse_def)

lemma pm_fits_iff:
  assumes "pm_linv st"
  shows "pm_fits st t c \<longleftrightarrow> bandwidth_needed \<le> total_bandwidth_percent (member c)"
proof -
  from assms have "\<forall>w\<ge>member_earliest_week st (name (member c)).
      dict_get (bandwidth_tracker st (name (member c))) w 0 = 0"
    unfolding pm_linv_def ledger_inv_def by blast
  then show ?thesis
    unfolding pm_fits_def by (rule can_assign_free) (rule duration_weeks_ge1)
qed

lemma pm_assign_task_cases:
  assumes "pm_linv st"
  shows "(team = [] \<and> pm_assign_task team p st t = st) \<or>
         (\<exists>m\<in>set team. pm_assign_task team p st t =
             pm_place p t m (bandwidth_needed \<le> total_bandwidth_percent m) st)"
proof (cases "find (pm_fits st t) (member_candidates st team t)")
  case None
  show ?thesis
  proof (cases "member_candidates st team t")
    case Nil
    with None show ?thesis
      using member_candidates_Nil[of st team t] by (simp add: pm_assign_task_def)
  next
    case (Cons c cs)
    then have cin: "c \<in> set (member_candidates st team t)" by simp
    with None have "\<not> pm_fits st t c" by (simp add: find_None_iff)
    then have nb: "(bandwidth_needed \<le> total_bandwidth_percent (member c)) = False"
      using pm_fits_iff[OF assms] by simp
    have min: "member c \<in> set team"
      using cin members_of_candidates[of st team t] by blast
    have "pm_assign_task team p st t = pm_place p t (member c) False st"
      using None Cons by (simp add: pm_assign_task_def)
    with nb min show ?thesis by metis
  qed
next
  case (Some c)
  then have cin: "c \<in> set (member_candidates st team t)" and "pm_fits st t c"
    by (auto simp: find_Some_iff)
  then have nb: "(bandwidth_needed \<le> total_bandwidth_percent (member c)) = True"
    using pm_fits_iff[OF assms] by simp
  have min: "member c \<in> set team"
    using cin members_of_candidates[of st team t] by blast
  have "pm_assign_task team p st t = pm_place p t (member c) True st"
    using Some by (simp add: pm_assign_task_def)
  with nb min show ?thesis by metis
qed

lemma pm_place_linv:
  assumes "pm_linv st"
  shows "pm_linv (pm_place p t m (bandwidth_needed \<le> total_bandwidth_percent m) st)"
  using ledger_inv_place[OF assms[unfolded pm_linv_def] order_refl,
      where m = m and assigned = "bandwidth_needed \<le> total_bandwidth_percent m" and p = p and t = t]
  by (simp add: pm_linv_def pm_place_def Let_def)

lemma pm_place_tasks:
  "map (\<lambda>ab. task (fst ab)) (emitted (pm_place p t m b st)) = map (\<lambda>ab. task (fst ab)) (emitted st) @ [t]"
  by (simp add: pm_place_def Let_def)

lemma pm_assign_task_linv: "pm_linv st \<Longrightarrow> pm_linv (pm_assign_task team p st t)"
  using pm_assign_task_cases[of st team p t] pm_place_linv by auto

lemma pm_assign_task_tasks:
  "pm_linv st \<Longrightarrow> team \<noteq> [] \<Longrightarrow>
   map (\<lambda>ab. task (fst ab)) (emitted (pm_assign_task team p st t)) = map (\<lambda>ab. task (fst ab)) (emitted st) @ [t]"
  using pm_assign_task_cases[of st team p t] pm_place_tasks by auto

lemma pm_tasks_loop:
  "pm_linv st \<Longrightarrow> pm_linv (foldl (pm_assign_task team p) st ts) \<and>
     (team \<noteq> [] \<longrightarrow> map (\<lambda>ab. task (fst ab)) (emitted (foldl (pm_assign_task team p) st ts)) =
        map (\<lambda>ab. task (fst ab)) (emitted st) @ ts)"
proof (induction ts arbitrary: st)
  case Nil
  then show ?case by simp
next
  case (Cons t ts)
  from Cons.prems have i: "pm_linv (pm_assign_task team p st t)" by (rule pm_assign_task_linv)
  from Cons.IH[OF i] pm_assign_task_tasks[OF Cons.prems, of team p t]
  show ?case by auto
qed

lemma pm_projects_loop:
  "pm_linv st \<Longrightarrow> pm_linv (pm_projects uuid team k ps st) \<and>
     (team \<noteq> [] \<longrightarrow> map (\<lambda>ab. task (fst ab)) (emitted (pm_projects uuid team k ps st)) =
        map (\<lambda>ab. task (fst ab)) (emitted st) @ portfolio_tasks uuid k ps)"
proof (induction ps arbitrary: st k)
  case Nil
  then show ?case by simp
next
  case (Cons p ps)
  let ?st = "foldl (pm_assign_task team p) st (create_portfolio_tasks uuid k p)"
  from pm_tasks_loop[OF Cons.prems, of team p "create_portfolio_tasks uuid k p"]
  have i: "pm_linv ?st" and
    t: "team \<noteq> [] \<longrightarrow> map (\<lambda>ab. task (fst ab)) (emitted ?st) =
        map (\<lambda>ab. task (fst ab)) (emitted st) @ create_portfolio_tasks uuid k p" by auto
  from Cons.IH[OF i, of "k + 5"] t show ?case by auto
qed

lemma pm_linv_init: "pm_linv pm_init"
  by (simp add: pm_linv_def pm_init_def ledger_inv_init)

lemma pm_linv_run: "pm_linv (allocate_resources_run uuid team projects)"
  unfolding allocate_resources_run_def
  using pm_projects_loop[OF pm_linv_init] by blast

lemma pm_empty_roster_task: "pm_assign_task [] p st t = st"
  by (simp add: pm_assign_task_def member_candidates_def sort_reverse_def)

lemma pm_empty_roster_tasks: "foldl (pm_assign_task [] p) st ts = st"
  by (induction ts) (simp_all add: pm_empty_roster_task)

lemma pm_empty_roster_projects: "pm_projects uuid [] k ps st = st"
  by (induction ps arbitrary: k) (simp_all add: pm_empty_roster_tasks)

lemma pm_tasks_assigned:
  "team \<noteq> [] \<Longrightarrow> map task (allocate_resources uuid team projects) =
      portfolio_tasks uuid 0 (sort_key priority projects)"
  using pm_projects_loop[OF pm_linv_init, of uuid team 0 "sort_key priority projects"]
  by (simp add: allocate_resources_def allocate_resources_run_def pm_init_def comp_def)

section \<open>Deep-dive run: one task assignment, one phase and the phase loop\<close>

lemma members_of_dd_candidates:
  "(\<lambda>c. snd (snd (snd c))) ` set (dd_member_candidates st team t) = set team"
  by (auto simp: dd_member_candidates_def sort_reverse_def dd_score_member_def Let_def image_iff)

lemma dd_member_candidates_Nil: "dd_member_candidates st team t = [] \<longleftrightarrow> team = []"
  by (metis length_0_conv length_map length_sort dd_member_candidates_def sort_reverse_def)

lemma dd_start_week_ge:
  "dd_member_earliest_week st (name m) \<le> dd_start_week st ps m" "ps \<le> dd_start_week st ps m"
  by (simp_all add: dd_start_week_def)

lemma dd_fits_iff:
  assumes "dd_linv st"
  shows "dd_fits st ps t (c, ms, wl, m) \<longleftrightarrow> bandwidth_needed \<le> total_bandwidth_percent m"
proof -
  from assms have "\<forall>w\<ge>dd_member_earliest_week st (name m).
      dict_get (dd_bandwidth_tracker st (name m)) w 0 = 0"
    unfolding dd_linv_def ledger_inv_def by blast
  then have "\<forall>w\<ge>dd_start_week st ps m. dict_get (dd_bandwidth_tracker st (name m)) w 0 = 0"
    using dd_start_week_ge(1)[of st m ps] by (meson order_trans)
  then have "can_assign (dd_bandwidth_tracker st (name m)) m (dd_start_week st ps m) (duration_weeks t)
      \<longleftrightarrow> bandwidth_needed \<le> total_bandwidth_percent m"
    by (rule can_assign_free) (rule duration_weeks_ge1)
  then show ?thesis by (simp add: dd_fits_def)
qed

lemma dd_assign_task_cases:
  assumes "dd_linv st"
  shows "(team = [] \<and> dd_assign_task team p ps st t = st) \<or>
         (\<exists>m\<in>set team. dd_assign_task team p ps st t =
             dd_place p ps t m (bandwidth_needed \<le> total_bandwidth_percent m) st)"
proof (cases "find (dd_fits st ps t) (dd_member_candidates st team t)")
  case None
  show ?thesis
  proof (cases "dd_member_candidates st team t")
    case Nil
    with None show ?thesis
      using dd_member_candidates_Nil[of st team t] by (simp add: dd_assign_task_def)
  next
    case (Cons c cs)
    obtain cb ms wl m where c: "c = (cb, ms, wl, m)" by (cases c) auto
    from Cons have cin: "c \<in> set (dd_member_candidates st team t)" by simp
    with None have "\<not> dd_fits st ps t c" unfolding find_None_iff by blast
    then have nb: "(bandwidth_needed \<le> total_bandwidth_percent m) = False"
      using dd_fits_iff[OF assms] c by simp
    have min: "m \<in> set team"
      using cin c members_of_dd_candidates[of st team t] by force
    have "dd_assign_task team p ps st t = dd_place p ps t m False st"
      using None Cons c by (simp add: dd_assign_task_def)
    with nb min show ?thesis by metis
  qed
next
  case (Some c)
  obtain cb ms wl m where c: "c = (cb, ms, wl, m)" by (cases c) auto
  from Some have cin: "c \<in> set (dd_member_candidates st team t)" and "dd_fits st ps t c"
    by (auto simp: find_Some_iff)
  then have nb: "(bandwidth_needed \<le> total_bandwidth_percent m) = True"
    using dd_fits_iff[OF assms] c by simp
  have min: "m \<in> set team"
    using cin c members_of_dd_candidates[of st team t] by force
  have "dd_assign_task team p ps st t = dd_place p ps t m True st"
    using Some c by (simp add: dd_assign_task_def)
  with nb min show ?thesis by metis
qed

lemma dd_place_linv:
  assumes "dd_linv st"
  shows "dd_linv (dd_place p ps t m (bandwidth_needed \<le> total_bandwidth_percent m) st)"
  using ledger_inv_place[OF assms[unfolded dd_linv_def] dd_start_week_ge(1),
      where m = m and assigned = "bandwidth_needed \<le> total_bandwidth_percent m" and p = p and t = t and ps1 = ps]
  by (simp add: dd_linv_def dd_place_def Let_def)

lemma dd_place_step: "dd_step_ok ps t st (dd_place p ps t m b st)"
  by (simp add: dd_step_ok_def dd_place_def Let_def dd_start_week_ge(2))

lemma dd_tasks_loop:
  assumes "dd_linv st"
  shows "dd_linv (foldl (dd_assign_task team p ps) st ts) \<and>
     phase_end_weeks (foldl (dd_assign_task team p ps) st ts) = phase_end_weeks st \<and>
     phase_max_end_week st \<le> phase_max_end_week (foldl (dd_assign_task team p ps) st ts) \<and>
     (\<exists>new. dd_emitted (foldl (dd_assign_task team p ps) st ts) = dd_emitted st @ new \<and>
        map (\<lambda>ab. task (fst ab)) new = (if team = [] then [] else ts) \<and>
        (\<forall>ab\<in>set new. ps \<le> start_week (fst ab) \<and>
            end_week (fst ab) \<le> phase_max_end_week (foldl (dd_assign_task team p ps) st ts)))"
  using assms
proof (induction ts arbitrary: st)
  case Nil
  then show ?case by simp
next
  case (Cons t ts)
  let ?s1 = "dd_assign_task team p ps st t"
  let ?s2 = "foldl (dd_assign_task team p ps) ?s1 ts"
  from dd_assign_task_cases[OF Cons.prems, of team p ps t]
  consider (empty) "team = []" "?s1 = st"
    | (placed) m where "m \<in> set team"
        "?s1 = dd_place p ps t m (bandwidth_needed \<le> total_bandwidth_percent m) st"
    by blast
  then show ?case
  proof cases
    case empty
    with Cons.IH[OF Cons.prems] show ?thesis by simp
  next
    case placed
    then have ne: "team \<noteq> []" by auto
    have i1: "dd_linv ?s1" using placed(2) dd_place_linv[OF Cons.prems] by simp
    have s1: "dd_step_ok ps t st ?s1" using placed(2) dd_place_step by simp
    then obtain a b where pe: "phase_end_weeks ?s1 = phase_end_weeks st"
      and pm: "phase_max_end_week st \<le> phase_max_end_week ?s1"
      and em: "dd_emitted ?s1 = dd_emitted st @ [(a, b)]" and ta: "task a = t"
      and sa: "ps \<le> start_week a" and ea: "end_week a \<le> phase_max_end_week ?s1"
      unfolding dd_step_ok_def by blast
    from Cons.IH[OF i1] obtain new where
      l2: "dd_linv ?s2" and pe2: "phase_end_weeks ?s2 = phase_end_weeks ?s1"
      and pm2: "phase_max_end_week ?s1 \<le> phase_max_end_week ?s2"
      and em2: "dd_emitted ?s2 = dd_emitted ?s1 @ new"
      and tn: "map (\<lambda>ab. task (fst ab)) new = (if team = [] then [] else ts)"
      and bn: "\<forall>ab\<in>set new. ps \<le> start_week (fst ab) \<and> end_week (fst ab) \<le> phase_max_end_week ?s2"
      by blast
    have e3: "dd_emitted ?s2 = dd_emitted st @ ((a, b) # new)" using em em2 by simp
    have t3: "map (\<lambda>ab. task (fst ab)) ((a, b) # new) = (if team = [] then [] else t # ts)"
      using tn ta ne by simp
    have b3: "\<forall>ab\<in>set ((a, b) # new). ps \<le> start_week (fst ab) \<and> end_week (fst ab) \<le> phase_max_end_week ?s2"
      using bn sa ea pm2 by auto
    have "phase_end_weeks ?s2 = phase_end_weeks st" using pe pe2 by simp
    moreover have "phase_max_end_week st \<le> phase_max_end_week ?s2" using pm pm2 by simp
    ultimately show ?thesis using l2 e3 t3 b3 by (simp del: set_simps list.map)
  qed
qed

lemma raise_earliest_ge: "e n \<le> raise_earliest team ps e n"
proof -
  have "\<And>x. x \<le> e n \<Longrightarrow>
      x \<le> (foldl (\<lambda>e m. if e (name m) < ps then e(name m := ps) else e) e team) n"
  proof (induction team arbitrary: e)
    case Nil
    then show ?case by simp
  next
    case (Cons m team)
    show ?case
      using Cons.prems by (auto intro!: Cons.IH)
  qed
  then show ?thesis unfolding raise_earliest_def by blast
qed

lemma distinct_phase_order: "distinct phase_order"
  by (simp add: phase_order_def)

lemma phase_order_nth_eq:
  "i < length phase_order \<Longrightarrow> j < length phase_order \<Longrightarrow> phase_order ! i = phase_order ! j \<Longrightarrow> i = j"
  using nth_eq_iff_index_eq[OF distinct_phase_order] by blast

lemma tasks_by_phase_phase: "t \<in> set (tasks_by_phase tasks ph) \<Longrightarrow> phase t = ph"
  by (simp add: tasks_by_phase_def)

lemma dd_phase_skip:
  "tasks_by_phase tasks ph = [] \<Longrightarrow> dd_phase team p tasks st (i, ph) = st"
  by (simp add: dd_phase_def)

lemma dd_oinv_skip:
  assumes i: "i < length phase_order" and inv: "dd_oinv team tasks i st"
    and e: "tasks_by_phase tasks (phase_order ! i) = []"
  shows "dd_oinv team tasks (Suc i) st"
proof -
  have c: "concat (map (tasks_by_phase tasks) (take (Suc i) phase_order)) =
        concat (map (tasks_by_phase tasks) (take i phase_order))"
    using i e by (simp add: take_Suc_conv_app_nth)
  from inv have linv: "dd_linv st"
    and old: "\<forall>ab\<in>set (dd_emitted st).
         (\<exists>j<i. phase (task (fst ab)) = phase_order ! j) \<and>
         end_week (fst ab) \<le> dict_get (phase_end_weeks st) (phase (task (fst ab))) 0"
    and gap: "phase_gap (map fst (dd_emitted st))"
    and tk: "map (\<lambda>ab. task (fst ab)) (dd_emitted st) =
       (if team = [] then [] else concat (map (tasks_by_phase tasks) (take i phase_order)))"
    unfolding dd_oinv_def by blast+
  have old': "\<forall>ab\<in>set (dd_emitted st).
         (\<exists>j<Suc i. phase (task (fst ab)) = phase_order ! j) \<and>
         end_week (fst ab) \<le> dict_get (phase_end_weeks st) (phase (task (fst ab))) 0"
    using old less_Suc_eq by blast
  show ?thesis unfolding dd_oinv_def using linv old' gap tk c by simp
qed

lemma dd_oinv_run_phase:
  assumes i: "i < length phase_order" and inv: "dd_oinv team tasks i st"
    and ne: "tasks_by_phase tasks (phase_order ! i) \<noteq> []"
  shows "dd_oinv team tasks (Suc i) (dd_phase team p tasks st (i, phase_order ! i))"
proof -
  let ?ph = "phase_order ! i"
  let ?pts = "tasks_by_phase tasks ?ph"
  define ps where "ps = (if i = 0 then 0 else dict_get (phase_end_weeks st) (phase_order ! (i - 1)) 0)"
  define st1 where "st1 = st\<lparr>dd_member_earliest_week :=
        raise_earliest team ps (dd_member_earliest_week st), phase_max_end_week := ps\<rparr>"
  define st2 where "st2 = foldl (dd_assign_task team p ps) st1 ?pts"
  define st3 where "st3 = st2\<lparr>phase_end_weeks := dict_set (phase_end_weeks st2) ?ph (phase_max_end_week st2)\<rparr>"
  have run: "dd_phase team p tasks st (i, ?ph) = st3"
    using ne by (simp add: dd_phase_def Let_def st3_def st2_def st1_def ps_def)
  from inv have linv: "dd_linv st"
    and old: "\<forall>ab\<in>set (dd_emitted st).
         (\<exists>j<i. phase (task (fst ab)) = phase_order ! j) \<and>
         end_week (fst ab) \<le> dict_get (phase_end_weeks st) (phase (task (fst ab))) 0"
    and gap: "phase_gap (map fst (dd_emitted st))"
    and tk: "map (\<lambda>ab. task (fst ab)) (dd_emitted st) =
       (if team = [] then [] else concat (map (tasks_by_phase tasks) (take i phase_order)))"
    unfolding dd_oinv_def by blast+
  have l1: "dd_linv st1"
    using ledger_inv_raise[OF linv[unfolded dd_linv_def], of "raise_earliest team ps (dd_member_earliest_week st)"]
      raise_earliest_ge
    by (simp add: dd_linv_def st1_def)
  from dd_tasks_loop[OF l1, of team p ps ?pts] obtain new where
    l2: "dd_linv st2" and pe2: "phase_end_weeks st2 = phase_end_weeks st1"
    and em2: "dd_emitted st2 = dd_emitted st1 @ new"
    and tn: "map (\<lambda>ab. task (fst ab)) new = (if team = [] then [] else ?pts)"
    and bn: "\<forall>ab\<in>set new. ps \<le> start_week (fst ab) \<and> end_week (fst ab) \<le> phase_max_end_week st2"
    unfolding st2_def by blast
  have pew: "phase_end_weeks st2 = phase_end_weeks st" using pe2 by (simp add: st1_def)
  have em3: "dd_emitted st3 = dd_emitted st @ new" using em2 by (simp add: st3_def st1_def)
  have pew3: "phase_end_weeks st3 = dict_set (phase_end_weeks st) ?ph (phase_max_end_week st2)"
    using pew by (simp add: st3_def)
  have newph: "\<forall>ab\<in>set new. phase (task (fst ab)) = ?ph"
  proof
    fix ab assume "ab \<in> set new"
    then have "task (fst ab) \<in> set (map (\<lambda>ab. task (fst ab)) new)" by force
    with tn have "task (fst ab) \<in> set ?pts" by (auto split: if_splits)
    then show "phase (task (fst ab)) = ?ph" by (rule tasks_by_phase_phase)
  qed
  have oldph: "\<forall>ab\<in>set (dd_emitted st). phase (task (fst ab)) \<noteq> ?ph"
  proof
    fix ab assume "ab \<in> set (dd_emitted st)"
    with old obtain j where j: "j < i" "phase (task (fst ab)) = phase_order ! j" by blast
    show "phase (task (fst ab)) \<noteq> ?ph"
    proof
      assume "phase (task (fst ab)) = ?ph"
      with j have "phase_order ! j = phase_order ! i" by simp
      with j(1) i phase_order_nth_eq[of j i] show False by simp
    qed
  qed
  have c1: "dd_linv st3" using l2 by (simp add: dd_linv_def st3_def)
  have c2: "\<forall>ab\<in>set (dd_emitted st3).
         (\<exists>j<Suc i. phase (task (fst ab)) = phase_order ! j) \<and>
         end_week (fst ab) \<le> dict_get (phase_end_weeks st3) (phase (task (fst ab))) 0"
  proof
    fix ab assume "ab \<in> set (dd_emitted st3)"
    then consider "ab \<in> set (dd_emitted st)" | "ab \<in> set new" using em3 by auto
    then show "(\<exists>j<Suc i. phase (task (fst ab)) = phase_order ! j) \<and>
         end_week (fst ab) \<le> dict_get (phase_end_weeks st3) (phase (task (fst ab))) 0"
    proof cases
      case 1
      with old obtain j where "j < i" "phase (task (fst ab)) = phase_order ! j"
        and "end_week (fst ab) \<le> dict_get (phase_end_weeks st) (phase (task (fst ab))) 0" by blast
      moreover from 1 oldph have "phase (task (fst ab)) \<noteq> ?ph" by blast
      ultimately show ?thesis
        using pew3 less_Suc_eq by (auto simp: dict_get_dict_set)
    next
      case 2
      with newph bn have "phase (task (fst ab)) = ?ph" "end_week (fst ab) \<le> phase_max_end_week st2"
        by blast+
      then show ?thesis using pew3 by (auto simp: dict_get_dict_set)
    qed
  qed
  have c3: "phase_gap (map fst (dd_emitted st3))"
    unfolding phase_gap_def
  proof (intro ballI allI impI)
    fix a b k
    assume a: "a \<in> set (map fst (dd_emitted st3))" and b: "b \<in> set (map fst (dd_emitted st3))"
      and h: "Suc k < length phase_order \<and> phase (task a) = phase_order ! k \<and>
              phase (task b) = phase_order ! Suc k"
    from a em3 consider (ao) "a \<in> fst ` set (dd_emitted st)" | (an) "a \<in> fst ` set new" by auto
    then show "end_week a \<le> start_week b"
    proof cases
      case ao
      from b em3 consider (bo) "b \<in> fst ` set (dd_emitted st)" | (bn') "b \<in> fst ` set new" by auto
      then show ?thesis
      proof cases
        case bo
        with ao gap h show ?thesis unfolding phase_gap_def by auto
      next
        case bn'
        with newph have "phase (task b) = ?ph" by auto
        with h have "phase_order ! Suc k = phase_order ! i" by simp
        with h i phase_order_nth_eq[of "Suc k" i] have ki: "Suc k = i" by simp
        then have ps': "ps = dict_get (phase_end_weeks st) (phase_order ! k) 0"
          by (auto simp: ps_def)
        from ao old h have "end_week a \<le> dict_get (phase_end_weeks st) (phase_order ! k) 0" by force
        moreover from bn' bn have "ps \<le> start_week b" by auto
        ultimately show ?thesis using ps' by simp
      qed
    next
      case an
      with newph have "phase (task a) = ?ph" by auto
      with h have "phase_order ! k = phase_order ! i" by simp
      with h i phase_order_nth_eq[of k i] have ki: "k = i" by simp
      from b em3 consider (bo) "b \<in> fst ` set (dd_emitted st)" | (bn') "b \<in> fst ` set new" by auto
      then show ?thesis
      proof cases
        case bo
        with old obtain j where j: "j < i" "phase (task b) = phase_order ! j" by force
        with h have "phase_order ! j = phase_order ! Suc k" by simp
        with j(1) i h phase_order_nth_eq[of j "Suc k"] have "j = Suc k" by simp
        with j(1) ki show ?thesis by simp
      next
        case bn'
        with newph have "phase (task b) = ?ph" by auto
        with h have "phase_order ! Suc k = phase_order ! i" by simp
        with h i phase_order_nth_eq[of "Suc k" i] have "Suc k = i" by simp
        with ki show ?thesis by simp
      qed
    qed
  qed
  have c4: "map (\<lambda>ab. task (fst ab)) (dd_emitted st3) =
       (if team = [] then [] else concat (map (tasks_by_phase tasks) (take (Suc i) phase_order)))"
    using em3 tk tn i by (simp add: take_Suc_conv_app_nth)
  show ?thesis unfolding run dd_oinv_def using c1 c2 c3 c4 by blast
qed

lemma dd_oinv_step:
  assumes "i < length phase_order" and "dd_oinv team tasks i st"
  shows "dd_oinv team tasks (Suc i) (dd_phase team p tasks st (i, phase_order ! i))"
proof (cases "tasks_by_phase tasks (phase_order ! i) = []")
  case True
  with dd_oinv_skip[OF assms] dd_phase_skip show ?thesis by simp
next
  case False
  with dd_oinv_run_phase[OF assms] show ?thesis by simp
qed

lemma dd_oinv_init: "dd_oinv team tasks 0 dd_init"
  by (simp add: dd_oinv_def dd_linv_def dd_init_def ledger_inv_init phase_gap_def)

lemma dd_oinv_loop:
  "i + length phs = length phase_order \<Longrightarrow> phs = drop i phase_order \<Longrightarrow> dd_oinv team tasks i st \<Longrightarrow>
   dd_oinv team tasks (length phase_order) (foldl (dd_phase team p tasks) st (enumerate i phs))"
proof (induction phs arbitrary: i st)
  case Nil
  then show ?case by simp
next
  case (Cons ph phs)
  from Cons.prems(1) have i: "i < length phase_order" by simp
  from Cons.prems(2) i have ph: "ph = phase_order ! i" and rest: "phs = drop (Suc i) phase_order"
    by (metis Cons_nth_drop_Suc list.inject)+
  from dd_oinv_step[OF i Cons.prems(3), of p] ph
  have "dd_oinv team tasks (Suc i) (dd_phase team p tasks st (i, ph))" by simp
  from Cons.IH[OF _ rest this] Cons.prems(1) show ?case by simp
qed

lemma dd_oinv_run: "dd_oinv team tasks (length phase_order) (allocate_tasks_run team p tasks)"
  unfolding allocate_tasks_run_def
  using dd_oinv_loop[of 0 phase_order team tasks dd_init p] dd_oinv_init by simp

section \<open>Capacity and the fallback branch\<close>

lemma pm_run_wf:
  "ab \<in> set (emitted (allocate_resources_run uuid team projects)) \<Longrightarrow> alloc_wf ab"
  using pm_linv_run[of uuid team projects] unfolding pm_linv_def ledger_inv_def by blast

lemma dd_linv_run: "dd_linv (allocate_tasks_run team p tasks)"
  using dd_oinv_run[of team tasks p] unfolding dd_oinv_def by blast

lemma dd_run_wf:
  "ab \<in> set (dd_emitted (allocate_tasks_run team p tasks)) \<Longrightarrow> alloc_wf ab"
  using dd_linv_run[of team p tasks] unfolding dd_linv_def ledger_inv_def by blast

lemma ledger_inv_capacity:
  assumes "ledger_inv es tr ea" and "0 \<le> total_bandwidth_percent m" and "\<not> flagged m w es"
  shows "committed m w es \<le> total_bandwidth_percent m"
proof -
  from assms(1) have "sorted_wrt no_overlap (map fst es)" and "\<forall>ab\<in>set es. alloc_wf ab"
    unfolding ledger_inv_def by blast+
  moreover from assms(3) have "\<forall>(a, assigned)\<in>set es. covers m w a \<longrightarrow> assigned"
    unfolding flagged_def by blast
  ultimately show ?thesis unfolding committed_def using assms(2) by (simp add: covering_sum)
qed

text \<open>
  C2 (as amended). For every person whose total bandwidth percent is at least 0 and every
  week: if no allocation of that person covering that week was emitted by the fallback
  branch, then the allocated bandwidth summed over that person's allocations covering the
  week is at most the person's total bandwidth percent. This holds for the portfolio run
  and for the deep-dive run. The hypothesis is about the branch taken, whose only trace in
  the source is a console line: the returned allocations carry no flag.
\<close>

theorem capacity_invariant:
  assumes "0 \<le> total_bandwidth_percent m"
  shows "(\<not> flagged m w (emitted (allocate_resources_run uuid team projects)) \<longrightarrow>
            committed m w (emitted (allocate_resources_run uuid team projects)) \<le> total_bandwidth_percent m) \<and>
         (\<not> flagged m w (dd_emitted (allocate_tasks_run team p tasks)) \<longrightarrow>
            committed m w (dd_emitted (allocate_tasks_run team p tasks)) \<le> total_bandwidth_percent m)"
  using ledger_inv_capacity[OF pm_linv_run[unfolded pm_linv_def] assms]
        ledger_inv_capacity[OF dd_linv_run[unfolded dd_linv_def] assms]
  by blast

theorem capacity_invariant_witness:
  "0 \<le> total_bandwidth_percent scenario_A \<and>
   \<not> flagged scenario_A 1 (emitted (allocate_resources_run scenario_uuid [scenario_A, scenario_B] [scenario_P])) \<and>
   committed scenario_A 1 (emitted (allocate_resources_run scenario_uuid [scenario_A, scenario_B] [scenario_P]))
     \<le> total_bandwidth_percent scenario_A \<and>
   \<not> flagged scenario_A 3 (dd_emitted (allocate_tasks_run [scenario_A, scenario_B] scenario_P [planning_task, design_task, other_task])) \<and>
   committed scenario_A 3 (dd_emitted (allocate_tasks_run [scenario_A, scenario_B] scenario_P [planning_task, design_task, other_task]))
     \<le> total_bandwidth_percent scenario_A"
proof -
  have h0: "0 \<le> total_bandwidth_percent scenario_A" by (simp add: scenario_A_def)
  have h1: "\<not> flagged scenario_A 1 (emitted (allocate_resources_run scenario_uuid [scenario_A, scenario_B] [scenario_P]))"
    by code_simp
  have h2: "\<not> flagged scenario_A 3 (dd_emitted (allocate_tasks_run [scenario_A, scenario_B] scenario_P [planning_task, design_task, other_task]))"
    by code_simp
  from capacity_invariant[OF h0, where w = 1 and uuid = scenario_uuid
      and team = "[scenario_A, scenario_B]" and projects = "[scenario_P]"] h1
  have c1: "committed scenario_A 1 (emitted (allocate_resources_run scenario_uuid [scenario_A, scenario_B] [scenario_P]))
     \<le> total_bandwidth_percent scenario_A" by blast
  from capacity_invariant[OF h0, where w = 3 and team = "[scenario_A, scenario_B]"
      and p = scenario_P and tasks = "[planning_task, design_task, other_task]"] h2
  have c2: "committed scenario_A 3 (dd_emitted (allocate_tasks_run [scenario_A, scenario_B] scenario_P [planning_task, design_task, other_task]))
     \<le> total_bandwidth_percent scenario_A" by blast
  from h0 h1 h2 c1 c2 show ?thesis by blast
qed

text \<open>
  C2 as stated fails on the list that the run returns. With the roster [C], of capacity 40,
  no returned allocation is flagged as overallocated, since the record has no such field
  (the first one is the plain seven-field record), and week 0 has 50 committed for C.
\<close>

theorem capacity_unflagged_counterexample:
  "total_bandwidth_percent scenario_C = 40 \<and>
   hd (allocate_resources scenario_uuid [scenario_C] [scenario_P]) = fallback_record \<and>
   covers scenario_C 0 fallback_record \<and>
   sum_list (map allocated_bandwidth
     (filter (covers scenario_C 0) (allocate_resources scenario_uuid [scenario_C] [scenario_P]))) = 50 \<and>
   \<not> sum_list (map allocated_bandwidth
     (filter (covers scenario_C 0) (allocate_resources scenario_uuid [scenario_C] [scenario_P])))
       \<le> total_bandwidth_percent scenario_C"
  by code_simp

text \<open>
  Read on the returned list alone: a person whose capacity is at least the 50 that every
  task takes is never over capacity in any week.
\<close>

lemma capacity_on_returned_list:
  assumes "bandwidth_needed \<le> total_bandwidth_percent m"
  shows "sum_list (map allocated_bandwidth (filter (covers m w) (allocate_resources uuid team projects)))
           \<le> total_bandwidth_percent m \<and>
         sum_list (map allocated_bandwidth (filter (covers m w) (allocate_tasks team p tasks)))
           \<le> total_bandwidth_percent m"
proof -
  have cap: "0 \<le> total_bandwidth_percent m" using assms by (simp add: bandwidth_needed_def)
  have nf: "\<not> flagged m w es" if "\<forall>ab\<in>set es. alloc_wf ab" for es
  proof
    assume "flagged m w es"
    then obtain a b where ab: "(a, b) \<in> set es" "covers m w a" "\<not> b"
      unfolding flagged_def by blast
    with that have "alloc_wf (a, b)" by blast
    with ab(2,3) assms show False by (simp add: alloc_wf_def covers_def)
  qed
  have "committed m w (emitted (allocate_resources_run uuid team projects)) \<le> total_bandwidth_percent m"
    using ledger_inv_capacity[OF pm_linv_run[unfolded pm_linv_def] cap] nf pm_run_wf by blast
  moreover have "committed m w (dd_emitted (allocate_tasks_run team p tasks)) \<le> total_bandwidth_percent m"
    using ledger_inv_capacity[OF dd_linv_run[unfolded dd_linv_def] cap] nf dd_run_wf by blast
  ultimately show ?thesis
    by (simp add: committed_def allocate_resources_def allocate_tasks_def)
qed

text \<open>
  C1 (as amended). Neither allocator puts an overallocation marker on the allocation: the
  fallback branch builds the record from the same seven fields as the normal branch. A
  fallback allocation can be recognised only indirectly: every allocation has allocated
  bandwidth 50, and it was emitted by the fallback branch if and only if its team member's
  total bandwidth percent is below that allocated bandwidth.
\<close>

theorem fallback_recognised_by_capacity:
  "(\<forall>(a, assigned)\<in>set (emitted (allocate_resources_run uuid team projects)).
      allocated_bandwidth a = 50 \<and>
      (\<not> assigned \<longleftrightarrow> total_bandwidth_percent (team_member a) < allocated_bandwidth a)) \<and>
   (\<forall>(a, assigned)\<in>set (dd_emitted (allocate_tasks_run team p tasks)).
      allocated_bandwidth a = 50 \<and>
      (\<not> assigned \<longleftrightarrow> total_bandwidth_percent (team_member a) < allocated_bandwidth a))"
proof -
  have "alloc_wf (a, assigned) \<Longrightarrow> allocated_bandwidth a = 50 \<and>
      (\<not> assigned \<longleftrightarrow> total_bandwidth_percent (team_member a) < allocated_bandwidth a)"
    for a assigned
    by (auto simp: alloc_wf_def bandwidth_needed_def)
  then show ?thesis
    using pm_run_wf[of _ uuid team projects] dd_run_wf[of _ team p tasks] by blast
qed

theorem fallback_recognised_by_capacity_witness:
  "(fallback_record, False) \<in> set (emitted (allocate_resources_run scenario_uuid [scenario_C] [scenario_P])) \<and>
   allocated_bandwidth fallback_record = 50 \<and>
   total_bandwidth_percent (team_member fallback_record) < allocated_bandwidth fallback_record"
proof -
  have h: "(fallback_record, False) \<in> set (emitted (allocate_resources_run scenario_uuid [scenario_C] [scenario_P]))"
    by code_simp
  with fallback_recognised_by_capacity[of scenario_uuid "[scenario_C]" "[scenario_P]"]
  show ?thesis by blast
qed

text \<open>
  C1 as stated fails: with a roster whose only member has capacity 40 the first task goes
  through the fallback branch, and the record appended is the plain seven-field record; a
  roster whose only member has capacity 50 gets, through the normal branch, a record that
  differs from it in nothing but the team member.
\<close>

theorem fallback_unmarked_counterexample:
  "take 1 (emitted (allocate_resources_run scenario_uuid [scenario_C] [scenario_P])) =
     [(fallback_record, False)] \<and>
   take 1 (emitted (allocate_resources_run scenario_uuid [scenario_B] [scenario_P])) =
     [(fallback_record\<lparr>team_member := scenario_B\<rparr>, True)] \<and>
   fallback_record = \<lparr>project = scenario_P,
      task = \<lparr>task_id = ''id'', task_name = ''Planning - P'', description = ''Planning phase for P'',
               required_skills = [''python''], estimated_hours = 40, phase = ''Planning'',
               dependencies = []\<rparr>,
      team_member = scenario_C, start_week = 0, end_week = 2, allocated_bandwidth = 50,
      estimated_cost = 2000\<rparr>"
  by code_simp

section \<open>Which tasks are allocated, phase ordering, degenerate inputs\<close>

lemma mset_filter_disjoint:
  "(\<And>x. \<not> (P x \<and> Q x)) \<Longrightarrow>
   mset (filter P xs) + mset (filter Q xs) = mset (filter (\<lambda>x. P x \<or> Q x) xs)"
  by (induction xs) auto

lemma mset_tasks_by_phase:
  "distinct phs \<Longrightarrow>
   mset (concat (map (tasks_by_phase tasks) phs)) = mset (filter (\<lambda>t. phase t \<in> set phs) tasks)"
proof (induction phs)
  case Nil
  then show ?case by simp
next
  case (Cons ph phs)
  then have d: "\<And>t. \<not> (phase t = ph \<and> phase t \<in> set phs)" by auto
  from Cons have ih: "mset (concat (map (tasks_by_phase tasks) phs)) =
      mset (filter (\<lambda>t. phase t \<in> set phs) tasks)" by simp
  have "mset (concat (map (tasks_by_phase tasks) (ph # phs))) =
        mset (tasks_by_phase tasks ph) + mset (concat (map (tasks_by_phase tasks) phs))"
    by simp
  also have "\<dots> = mset (filter (\<lambda>t. phase t = ph) tasks) + mset (filter (\<lambda>t. phase t \<in> set phs) tasks)"
    unfolding ih by (simp add: tasks_by_phase_def)
  also have "\<dots> = mset (filter (\<lambda>t. phase t = ph \<or> phase t \<in> set phs) tasks)"
    using d by (rule mset_filter_disjoint)
  finally show ?case by simp
qed

lemma dd_tasks_assigned:
  "map task (allocate_tasks team p tasks) =
     (if team = [] then [] else concat (map (tasks_by_phase tasks) phase_order))"
  using dd_oinv_run[of team tasks p]
  by (simp add: dd_oinv_def allocate_tasks_def comp_def)

lemma dd_phase_gap: "phase_gap (allocate_tasks team p tasks)"
  using dd_oinv_run[of team tasks p] by (simp add: dd_oinv_def allocate_tasks_def)

lemma pm_no_projects: "allocate_resources uuid team [] = []"
  by (simp add: allocate_resources_def allocate_resources_run_def pm_init_def)

lemma pm_no_roster: "allocate_resources uuid [] projects = []"
  by (simp add: allocate_resources_def allocate_resources_run_def pm_empty_roster_projects pm_init_def)

lemma dd_no_roster: "allocate_tasks [] p tasks = []"
  using dd_tasks_assigned[of "[]" p tasks] by simp

lemma dd_no_tasks: "allocate_tasks team p [] = []"
proof -
  have "concat (map (tasks_by_phase []) phase_order) = []"
    by (simp add: tasks_by_phase_def phase_order_def)
  then have "map task (allocate_tasks team p []) = []"
    using dd_tasks_assigned[of team p "[]"] by (cases "team = []") simp_all
  then show ?thesis by simp
qed

lemma wf_zero_hours:
  assumes "alloc_wf (a, b)" and "estimated_hours (task a) = 0"
  shows "end_week a = start_week a + 1 \<and> estimated_cost a = 0"
  using assms by (simp add: alloc_wf_def duration_weeks_def py_int_def)

lemma run_allocs_wf:
  assumes "a \<in> set (allocate_resources uuid team projects) \<union> set (allocate_tasks team p tasks)"
  shows "\<exists>b. alloc_wf (a, b)"
proof -
  from assms consider "a \<in> fst ` set (emitted (allocate_resources_run uuid team projects))"
    | "a \<in> fst ` set (dd_emitted (allocate_tasks_run team p tasks))"
    by (auto simp: allocate_resources_def allocate_tasks_def)
  then show ?thesis
  proof cases
    case 1
    then obtain b where "(a, b) \<in> set (emitted (allocate_resources_run uuid team projects))" by auto
    then show ?thesis using pm_run_wf by blast
  next
    case 2
    then obtain b where "(a, b) \<in> set (dd_emitted (allocate_tasks_run team p tasks))" by auto
    then show ?thesis using dd_run_wf by blast
  qed
qed

text \<open>
  C4 (as amended). With a non-empty roster the portfolio run emits exactly one allocation
  for each of the five synthetic phase tasks of each project, in priority and phase order;
  the deep-dive run emits exactly one allocation for each task of its task list whose
  phase label is one of the five fixed phases, ordered by phase and then by position in
  the list. A task with any other phase label gets no allocation.
\<close>

theorem tasks_assigned_once:
  assumes "team \<noteq> []"
  shows "map task (allocate_resources uuid team projects) =
           portfolio_tasks uuid 0 (sort_key priority projects) \<and>
         map task (allocate_tasks team p tasks) = concat (map (tasks_by_phase tasks) phase_order) \<and>
         mset (map task (allocate_tasks team p tasks)) =
           mset (filter (\<lambda>t. phase t \<in> set phase_order) tasks)"
  using pm_tasks_assigned[OF assms, of uuid projects] dd_tasks_assigned[of team p tasks] assms
    mset_tasks_by_phase[OF distinct_phase_order, of tasks]
  by simp

theorem tasks_assigned_once_witness:
  "[scenario_A, scenario_B] \<noteq> [] \<and>
   map task (allocate_resources scenario_uuid [scenario_A, scenario_B] [scenario_P]) =
     create_portfolio_tasks scenario_uuid 0 scenario_P \<and>
   map task (allocate_tasks [scenario_A, scenario_B] scenario_P [design_task, other_task, planning_task]) =
     [planning_task, design_task]"
proof -
  have h: "[scenario_A, scenario_B] \<noteq> []" by simp
  have e1: "portfolio_tasks scenario_uuid 0 (sort_key priority [scenario_P]) =
      create_portfolio_tasks scenario_uuid 0 scenario_P" by simp
  have e2: "concat (map (tasks_by_phase [design_task, other_task, planning_task]) phase_order) =
      [planning_task, design_task]"
    by (simp add: tasks_by_phase_def phase_order_def design_task_def other_task_def planning_task_def)
  from tasks_assigned_once[OF h, of scenario_uuid "[scenario_P]" scenario_P
      "[design_task, other_task, planning_task]"] e1 e2 h
  show ?thesis by simp
qed

text \<open>
  C4 as stated fails in the deep-dive run for a task whose phase label is none of the
  five: the roster is not empty, the task is in the task list, and no allocation
  references it.
\<close>

theorem unknown_phase_counterexample:
  "[scenario_A] \<noteq> [] \<and> other_task \<in> set [planning_task, other_task] \<and>
   other_task \<notin> set (map task (allocate_tasks [scenario_A] scenario_P [planning_task, other_task])) \<and>
   map task (allocate_tasks [scenario_A] scenario_P [planning_task, other_task]) = [planning_task]"
  by code_simp

text \<open>
  C5. In the deep-dive run an allocation of phase k+1 starts no earlier than any allocation
  of phase k ends; no allocation starts before week 0.
\<close>

theorem phase_ordering:
  assumes "a \<in> set (allocate_tasks team p tasks)" and "b \<in> set (allocate_tasks team p tasks)"
    and "Suc k < length phase_order"
    and "phase (task a) = phase_order ! k" and "phase (task b) = phase_order ! Suc k"
  shows "end_week a \<le> start_week b \<and> 0 \<le> start_week a \<and> 0 \<le> start_week b"
proof -
  from dd_phase_gap[of team p tasks] assms have "end_week a \<le> start_week b"
    unfolding phase_gap_def by blast
  moreover from run_allocs_wf[where a = a and team = team and p = p and tasks = tasks] assms(1) have "0 \<le> start_week a"
    by (auto simp: alloc_wf_def)
  moreover from run_allocs_wf[where a = b and team = team and p = p and tasks = tasks] assms(2) have "0 \<le> start_week b"
    by (auto simp: alloc_wf_def)
  ultimately show ?thesis by simp
qed

theorem phase_ordering_witness:
  "allocate_tasks [scenario_A, scenario_B] scenario_P [design_task, other_task, planning_task] =
     [phase_example_a, phase_example_b] \<and>
   Suc 0 < length phase_order \<and>
   phase (task phase_example_a) = phase_order ! 0 \<and>
   phase (task phase_example_b) = phase_order ! Suc 0 \<and>
   end_week phase_example_a \<le> start_week phase_example_b \<and> start_week phase_example_a = 0"
proof -
  let ?run = "allocate_tasks [scenario_A, scenario_B] scenario_P [design_task, other_task, planning_task]"
  have r: "?run = [phase_example_a, phase_example_b]" by code_simp
  then have a: "phase_example_a \<in> set ?run" and b: "phase_example_b \<in> set ?run" by simp_all
  have k: "Suc 0 < length phase_order" by (simp add: phase_order_def)
  have pa: "phase (task phase_example_a) = phase_order ! 0"
    by (simp add: phase_example_a_def planning_task_def phase_order_def)
  have pb: "phase (task phase_example_b) = phase_order ! Suc 0"
    by (simp add: phase_example_b_def design_task_def phase_order_def)
  have s: "start_week phase_example_a = 0" by (simp add: phase_example_a_def)
  from phase_ordering[OF a b k pa pb] r k pa pb s show ?thesis by simp
qed

text \<open>
  C8 (as amended). Neither allocator checks its inputs or reports a precondition error:
  with an empty roster, an empty project list or an empty task list it returns the empty
  allocation list, and a task of zero hours gets the duration of one week and is allocated
  like any other task, for one week at cost 0.
\<close>

theorem degenerate_inputs_not_rejected:
  "allocate_resources uuid [] projects = [] \<and> allocate_resources uuid team [] = [] \<and>
   allocate_tasks [] p tasks = [] \<and> allocate_tasks team p [] = [] \<and>
   duration_weeks (t\<lparr>estimated_hours := 0\<rparr>) = 1 \<and>
   (\<forall>a\<in>set (allocate_resources uuid team projects) \<union> set (allocate_tasks team p tasks).
       estimated_hours (task a) = 0 \<longrightarrow> end_week a = start_week a + 1 \<and> estimated_cost a = 0)"
proof -
  have "duration_weeks (t\<lparr>estimated_hours := 0\<rparr>) = 1"
    by (simp add: duration_weeks_def py_int_def)
  moreover have "\<forall>a\<in>set (allocate_resources uuid team projects) \<union> set (allocate_tasks team p tasks).
       estimated_hours (task a) = 0 \<longrightarrow> end_week a = start_week a + 1 \<and> estimated_cost a = 0"
    using run_allocs_wf wf_zero_hours by blast
  ultimately show ?thesis
    using pm_no_roster pm_no_projects dd_no_roster dd_no_tasks by blast
qed

theorem degenerate_inputs_not_rejected_witness:
  "zero_hours_example \<in> set (allocate_resources scenario_uuid [scenario_A] [zero_project]) \<union>
      set (allocate_tasks [scenario_A] scenario_P []) \<and>
   estimated_hours (task zero_hours_example) = 0 \<and>
   end_week zero_hours_example = start_week zero_hours_example + 1 \<and>
   estimated_cost zero_hours_example = 0"
proof -
  have m: "zero_hours_example \<in> set (allocate_resources scenario_uuid [scenario_A] [zero_project]) \<union>
      set (allocate_tasks [scenario_A] scenario_P [])" by code_simp
  have h: "estimated_hours (task zero_hours_example) = 0" by code_simp
  from degenerate_inputs_not_rejected[of scenario_uuid "[zero_project]" "[scenario_A]" scenario_P "[]"] m h
  show ?thesis by blast
qed

text \<open>
  C8 as stated fails: an empty roster, an empty project list and a project of zero hours
  are all accepted without any report. The first two give the empty allocation list, the
  third five allocations of one week each at cost 0.
\<close>

theorem no_precondition_error_counterexample:
  "allocate_resources scenario_uuid [] [scenario_P] = [] \<and>
   allocate_tasks [] scenario_P [planning_task] = [] \<and>
   allocate_resources scenario_uuid [scenario_A] [] = [] \<and>
   map (estimated_hours \<circ> task) (allocate_resources scenario_uuid [scenario_A] [zero_project]) =
     [0, 0, 0, 0, 0] \<and>
   map start_week (allocate_resources scenario_uuid [scenario_A] [zero_project]) = [0, 1, 2, 3, 4] \<and>
   map end_week (allocate_resources scenario_uuid [scenario_A] [zero_project]) = [1, 2, 3, 4, 5] \<and>
   map estimated_cost (allocate_resources scenario_uuid [scenario_A] [zero_project]) = [0, 0, 0, 0, 0]"
  by code_simp

section \<open>The end-to-end scenario\<close>

text \<open>
  C3 (as amended). In the scenario the five tasks go to A, A, B, A, A with start weeks
  0, 2, 0, 4, 6: the third task goes to B, because A's workload and streak have lowered
  A's combined score to 91/150 while B, with skill score 0, still has 7/10.
\<close>

theorem scenario_allocation:
  "map (name \<circ> team_member) (allocate_resources scenario_uuid [scenario_A, scenario_B] [scenario_P]) =
     [''A'', ''A'', ''B'', ''A'', ''A''] \<and>
   map start_week (allocate_resources scenario_uuid [scenario_A, scenario_B] [scenario_P]) =
     [0, 2, 0, 4, 6] \<and>
   map end_week (allocate_resources scenario_uuid [scenario_A, scenario_B] [scenario_P]) =
     [2, 4, 2, 6, 8] \<and>
   map phase (create_portfolio_tasks scenario_uuid 0 scenario_P) = phase_order \<and>
   map required_skills (create_portfolio_tasks scenario_uuid 0 scenario_P) = replicate 5 [''python''] \<and>
   map duration_weeks (create_portfolio_tasks scenario_uuid 0 scenario_P) = replicate 5 2"
  by code_simp

text \<open>
  C3 as stated fails: the third task is assigned to B, and the start weeks are not
  0, 2, 4, 6, 8.
\<close>

theorem scenario_counterexample:
  "map (name \<circ> team_member) (allocate_resources scenario_uuid [scenario_A, scenario_B] [scenario_P]) \<noteq>
     [''A'', ''A'', ''A'', ''A'', ''A''] \<and>
   map start_week (allocate_resources scenario_uuid [scenario_A, scenario_B] [scenario_P]) \<noteq>
     [0, 2, 4, 6, 8] \<and>
   name (team_member (allocate_resources scenario_uuid [scenario_A, scenario_B] [scenario_P] ! 2)) = ''B''"
  by code_simp

lemma third_task_scores:
  "map (\<lambda>c. (name (member c), combined_score c))
     (member_candidates
        (foldl (pm_assign_task [scenario_A, scenario_B] scenario_P) pm_init
           (take 2 (create_portfolio_tasks scenario_uuid 0 scenario_P)))
        [scenario_A, scenario_B]
        (create_portfolio_tasks scenario_uuid 0 scenario_P ! 2)) =
   [(''B'', 7 / 10), (''A'', 91 / 150)]"
  by code_simp

section \<open>Streak counters\<close>

lemma update_consecutive_inv:
  assumes "case prev of None \<Rightarrow> (\<forall>k. c k = 0)
           | Some l \<Rightarrow> l \<noteq> [] \<and> 1 \<le> c l \<and> (\<forall>k. k \<noteq> l \<longrightarrow> c k = 0)"
    and "n \<noteq> []"
  shows "1 \<le> update_consecutive prev n c n \<and> (\<forall>k. k \<noteq> n \<longrightarrow> update_consecutive prev n c k = 0)"
  using assms by (cases prev) (auto simp: update_consecutive_def)

lemma pm_place_streak:
  assumes "streak_inv st" and "name m \<noteq> []"
  shows "streak_inv (pm_place p t m b st)"
  using update_consecutive_inv[where prev = "last_assigned_member st"
      and c = "consecutive_tasks st" and n = "name m"] assms
  by (simp add: streak_inv_def pm_place_def Let_def)

lemma pm_assign_task_streak:
  assumes "pm_linv st" and "streak_inv st" and "\<forall>m\<in>set team. name m \<noteq> []"
  shows "streak_inv (pm_assign_task team p st t)"
proof -
  from pm_assign_task_cases[OF assms(1), of team p t]
  consider "pm_assign_task team p st t = st"
    | m where "m \<in> set team"
        "pm_assign_task team p st t = pm_place p t m (bandwidth_needed \<le> total_bandwidth_percent m) st"
    by blast
  then show ?thesis
  proof cases
    case 1
    with assms(2) show ?thesis by simp
  next
    case 2
    with assms(3) have "name m \<noteq> []" by blast
    with pm_place_streak[OF assms(2)] 2(2) show ?thesis by simp
  qed
qed

lemma pm_tasks_streak:
  "pm_linv st \<Longrightarrow> streak_inv st \<Longrightarrow> \<forall>m\<in>set team. name m \<noteq> [] \<Longrightarrow>
   streak_inv (foldl (pm_assign_task team p) st ts)"
proof (induction ts arbitrary: st)
  case Nil
  then show ?case by simp
next
  case (Cons t ts)
  from Cons.prems have "pm_linv (pm_assign_task team p st t)" "streak_inv (pm_assign_task team p st t)"
    by (simp_all add: pm_assign_task_linv pm_assign_task_streak)
  with Cons.IH Cons.prems(3) show ?case by simp
qed

lemma pm_projects_streak:
  "pm_linv st \<Longrightarrow> streak_inv st \<Longrightarrow> \<forall>m\<in>set team. name m \<noteq> [] \<Longrightarrow>
   streak_inv (pm_projects uuid team k ps st)"
proof (induction ps arbitrary: st k)
  case Nil
  then show ?case by simp
next
  case (Cons p ps)
  let ?st = "foldl (pm_assign_task team p) st (create_portfolio_tasks uuid k p)"
  from Cons.prems have "streak_inv ?st" by (simp add: pm_tasks_streak)
  moreover from Cons.prems(1) have "pm_linv ?st" using pm_tasks_loop by blast
  ultimately show ?case using Cons.IH Cons.prems(3) by simp
qed

text \<open>
  When no roster name is the empty string, the streak counters behave as C10 says: before
  the first assignment all are 0, afterwards the most recently assigned name has a counter
  of at least 1 and every other name has 0. The property is preserved by every task
  assignment (\<open>pm_assign_task_streak\<close>) and so holds at every point of the run.
\<close>

lemma streak_invariant_nonempty_names:
  assumes "\<forall>m\<in>set team. name m \<noteq> []"
  shows "streak_inv (allocate_resources_run uuid team projects)"
  unfolding allocate_resources_run_def
  using pm_projects_streak[OF pm_linv_init _ assms]
  by (simp add: streak_inv_def pm_init_def)

text \<open>
  C10 fails on the code when a member's name is the empty string: \<open>if last_assigned_member:\<close>
  (lines 159 and 190) is false for the empty string as it is for \<open>None\<close>, so that member's
  streak is not reset when the next task goes to somebody else. Here, after the first
  three tasks of the scenario with A renamed to the empty string, the most recently
  assigned member is B, with counter 1, and the unnamed member still has counter 2.
\<close>

theorem streak_not_reset_for_empty_name:
  "last_assigned_member
     (foldl (pm_assign_task [unnamed_member, scenario_B] scenario_P) pm_init
        (take 3 (create_portfolio_tasks scenario_uuid 0 scenario_P))) = Some ''B'' \<and>
   consecutive_tasks
     (foldl (pm_assign_task [unnamed_member, scenario_B] scenario_P) pm_init
        (take 3 (create_portfolio_tasks scenario_uuid 0 scenario_P))) ''B'' = 1 \<and>
   consecutive_tasks
     (foldl (pm_assign_task [unnamed_member, scenario_B] scenario_P) pm_init
        (take 3 (create_portfolio_tasks scenario_uuid 0 scenario_P))) '''' = 2 \<and>
   map (name \<circ> team_member) (allocate_resources scenario_uuid [unnamed_member, scenario_B] [scenario_P]) =
     ['''', '''', ''B'', '''', '''']"
  by code_simp

section \<open>Determinism\<close>

lemma duration_weeks_forget: "duration_weeks (forget_id t) = duration_weeks t"
  by (simp add: duration_weeks_def forget_id_def)

lemma score_member_forget: "score_member (forget_ids st) (forget_id t) = score_member st t"
  by (rule ext) (simp add: score_member_def forget_ids_def forget_id_def)

lemma member_candidates_forget:
  "member_candidates (forget_ids st) team (forget_id t) = member_candidates st team t"
  by (simp add: member_candidates_def score_member_forget)

lemma pm_fits_forget: "pm_fits (forget_ids st) (forget_id t) c = pm_fits st t c"
  by (simp add: pm_fits_def duration_weeks_forget forget_ids_def)

lemma pm_place_forget:
  "forget_ids (pm_place p t m b st) = pm_place p (forget_id t) m b (forget_ids st)"
  by (simp add: pm_place_def Let_def forget_ids_def forget_task_id_def duration_weeks_forget)
     (simp add: forget_id_def)

lemma pm_assign_task_forget:
  "forget_ids (pm_assign_task team p st t) = pm_assign_task team p (forget_ids st) (forget_id t)"
proof -
  have f: "find (pm_fits (forget_ids st) (forget_id t)) cs = find (pm_fits st t) cs" for cs
    by (induction cs) (simp_all add: pm_fits_forget)
  show ?thesis
    unfolding pm_assign_task_def Let_def member_candidates_forget f
    by (simp add: pm_place_forget split: option.split list.split)
qed

lemma pm_tasks_forget:
  "forget_ids (foldl (pm_assign_task team p) st ts) =
   foldl (pm_assign_task team p) (forget_ids st) (map forget_id ts)"
  by (induction ts arbitrary: st) (simp_all add: pm_assign_task_forget)

lemma create_portfolio_tasks_forget:
  "map forget_id (create_portfolio_tasks uuid k p) = create_portfolio_tasks (\<lambda>_. []) 0 p"
  by (simp add: create_portfolio_tasks_def phase_order_def forget_id_def)

lemma create_portfolio_tasks_offset:
  "create_portfolio_tasks (\<lambda>_. []) j p = create_portfolio_tasks (\<lambda>_. []) 0 p"
  by (simp add: create_portfolio_tasks_def phase_order_def)

lemma pm_projects_offset:
  "pm_projects (\<lambda>_. []) team j ps s = pm_projects (\<lambda>_. []) team 0 ps s"
proof (induction ps arbitrary: j s)
  case Nil
  then show ?case by simp
next
  case (Cons p ps)
  have "pm_projects (\<lambda>_. []) team j (p # ps) s =
        pm_projects (\<lambda>_. []) team (j + 5) ps
          (foldl (pm_assign_task team p) s (create_portfolio_tasks (\<lambda>_. []) 0 p))"
    using create_portfolio_tasks_offset[of j p] by simp
  also have "\<dots> = pm_projects (\<lambda>_. []) team 0 ps
          (foldl (pm_assign_task team p) s (create_portfolio_tasks (\<lambda>_. []) 0 p))"
    by (rule Cons.IH)
  also have "\<dots> = pm_projects (\<lambda>_. []) team (0 + 5) ps
          (foldl (pm_assign_task team p) s (create_portfolio_tasks (\<lambda>_. []) 0 p))"
    by (rule Cons.IH[symmetric])
  finally show ?case by simp
qed

lemma pm_projects_forget:
  "forget_ids (pm_projects uuid team k ps st) = pm_projects (\<lambda>_. []) team 0 ps (forget_ids st)"
proof (induction ps arbitrary: st k)
  case Nil
  then show ?case by simp
next
  case (Cons p ps)
  have "forget_ids (pm_projects uuid team k (p # ps) st) =
        pm_projects (\<lambda>_. []) team 0 ps
          (forget_ids (foldl (pm_assign_task team p) st (create_portfolio_tasks uuid k p)))"
    using Cons.IH by simp
  also have "\<dots> = pm_projects (\<lambda>_. []) team 0 ps
          (foldl (pm_assign_task team p) (forget_ids st) (create_portfolio_tasks (\<lambda>_. []) 0 p))"
    by (simp add: pm_tasks_forget create_portfolio_tasks_forget)
  also have "\<dots> = pm_projects (\<lambda>_. []) team (0 + 5) ps
          (foldl (pm_assign_task team p) (forget_ids st) (create_portfolio_tasks (\<lambda>_. []) 0 p))"
    by (rule pm_projects_offset[symmetric])
  finally show ?case by simp
qed

lemma allocate_resources_forget:
  "map forget_task_id (allocate_resources uuid team projects) =
   allocate_resources (\<lambda>_. []) team projects"
proof -
  have "emitted (forget_ids (allocate_resources_run uuid team projects)) =
        emitted (allocate_resources_run (\<lambda>_. []) team projects)"
    unfolding allocate_resources_run_def pm_projects_forget
    by (simp add: forget_ids_def pm_init_def)
  then have "map fst (emitted (forget_ids (allocate_resources_run uuid team projects))) =
        map fst (emitted (allocate_resources_run (\<lambda>_. []) team projects))"
    by simp
  then show ?thesis
    by (simp add: allocate_resources_def forget_ids_def comp_def case_prod_unfold)
qed

lemma sort_reverse_stable:
  "filter (\<lambda>x. f x = s) (sort_reverse f xs) = filter (\<lambda>x. f x = s) xs"
  using sort_key_stable[of "\<lambda>x. - f x" "- s" xs] by (simp add: sort_reverse_def)

lemma sort_reverse_descending: "sorted_wrt (\<lambda>x y. f y \<le> f x) (sort_reverse f xs)"
  using sorted_sort_key[of "\<lambda>x. - f x" xs] by (simp add: sort_reverse_def sorted_map)

text \<open>
  An instance of the tie-break: B and C have equal combined scores for the first task, and
  each roster order is kept by the ranking.
\<close>

lemma equal_scores_keep_roster_order:
  "map (name \<circ> member) (member_candidates pm_init [scenario_B, scenario_C] planning_task) = [''B'', ''C''] \<and>
   map (name \<circ> member) (member_candidates pm_init [scenario_C, scenario_B] planning_task) = [''C'', ''B'']"
  by code_simp

text \<open>
  C9 (as amended). Two portfolio runs on the same roster and the same project list produce
  allocation lists that are identical except for the \<open>id\<close> of the synthetic tasks, which
  \<open>Task(...)\<close> draws from \<open>uuid.uuid4()\<close> in each run and which no decision depends on. In
  both allocators the candidates are ranked by descending combined score and candidates
  with equal scores keep the order of the roster.
\<close>

theorem deterministic_up_to_task_ids:
  "map forget_task_id (allocate_resources uuid team projects) =
     map forget_task_id (allocate_resources uuid' team projects) \<and>
   sorted_wrt (\<lambda>c c'. combined_score c' \<le> combined_score c) (member_candidates st team t) \<and>
   filter (\<lambda>c. combined_score c = s) (member_candidates st team t) =
     filter (\<lambda>c. combined_score c = s) (map (score_member st t) team) \<and>
   sorted_wrt (\<lambda>c c'. fst c' \<le> fst c) (dd_member_candidates dst team t) \<and>
   filter (\<lambda>c. fst c = s) (dd_member_candidates dst team t) =
     filter (\<lambda>c. fst c = s) (map (dd_score_member dst t) team)"
proof -
  have "map forget_task_id (allocate_resources uuid team projects) =
     map forget_task_id (allocate_resources uuid' team projects)"
    by (simp add: allocate_resources_forget)
  moreover have "sorted_wrt (\<lambda>c c'. combined_score c' \<le> combined_score c) (member_candidates st team t)"
    unfolding member_candidates_def by (rule sort_reverse_descending)
  moreover have "filter (\<lambda>c. combined_score c = s) (member_candidates st team t) =
     filter (\<lambda>c. combined_score c = s) (map (score_member st t) team)"
    unfolding member_candidates_def by (rule sort_reverse_stable)
  moreover have "sorted_wrt (\<lambda>c c'. fst c' \<le> fst c) (dd_member_candidates dst team t)"
    unfolding dd_member_candidates_def by (rule sort_reverse_descending)
  moreover have "filter (\<lambda>c. fst c = s) (dd_member_candidates dst team t) =
     filter (\<lambda>c. fst c = s) (map (dd_score_member dst t) team)"
    unfolding dd_member_candidates_def by (rule sort_reverse_stable)
  ultimately show ?thesis by blast
qed

text \<open>
  C9 as stated fails: the same roster and project list with two different draws of task
  ids give two different allocation lists.
\<close>

theorem random_task_ids_counterexample:
  "allocate_resources scenario_uuid [scenario_A] [scenario_P] \<noteq>
   allocate_resources other_uuid [scenario_A] [scenario_P]"
  by code_simp

end
